theory Spec2Isabelle
  imports Complex_Main
begin

section \<open>Python primitives used by beamdef.py\<close>

text \<open>
  Python floats are idealised as mathematical reals and Python complex numbers as
  \<^typ>\<open>complex\<close>; Python integers are \<^typ>\<open>int\<close>. The module is run by Python 3
  (BeamDemo.py imports it): \<open>/\<close> is true division and \<open>round\<close> rounds a tie to the even
  integer. Every exception the source can raise is a value of \<open>py_error\<close>, and a fallible
  function returns \<open>py_error + 'a\<close>; a division raises ZeroDivisionError when the
  divisor is zero.
\<close>

datatype py_error = ZeroDivisionError | IndexError | KeyError | ValueError

definition bindE :: "'e + 'a \<Rightarrow> ('a \<Rightarrow> 'e + 'b) \<Rightarrow> 'e + 'b" where
  "bindE m f = (case m of Inl e \<Rightarrow> Inl e | Inr x \<Rightarrow> f x)"

definition py_div :: "real \<Rightarrow> real \<Rightarrow> py_error + real" where
  \<comment> \<open>\<open>x / y\<close> on floats\<close>
  "py_div x y = (if y = 0 then Inl ZeroDivisionError else Inr (x / y))"

definition py_mod :: "real \<Rightarrow> real \<Rightarrow> py_error + real" where
  \<comment> \<open>\<open>x % y\<close> on floats: the result takes the sign of the divisor\<close>
  "py_mod x y = (if y = 0 then Inl ZeroDivisionError
                 else Inr (x - y * of_int \<lfloor>x / y\<rfloor>))"

definition py_round :: "real \<Rightarrow> int" where
  \<comment> \<open>\<open>round(x)\<close> with one argument: nearest integer, a tie goes to the even one\<close>
  "py_round x =
     (let f = \<lfloor>x\<rfloor>; r = x - of_int f
      in if r < 1 / 2 then f
         else if 1 / 2 < r then f + 1
         else if even f then f else f + 1)"

definition trunc :: "real \<Rightarrow> int" where
  \<comment> \<open>\<open>math.trunc\<close>: towards zero\<close>
  "trunc x = (if 0 \<le> x then \<lfloor>x\<rfloor> else \<lceil>x\<rceil>)"

definition radians :: "real \<Rightarrow> real" where
  "radians x = x * (pi / 180)"

section \<open>Quadrant labels and AWMF-0108 constants\<close>

definition NW :: string where "NW = ''NW''"
definition SW :: string where "SW = ''SW''"
definition SE :: string where "SE = ''SE''"
definition NE :: string where "NE = ''NE''"

definition phaseControlRange :: int where "phaseControlRange = 32"
definition phaseControlMax :: real where "phaseControlMax = 2 * pi"

section \<open>Phase quantizer\<close>

definition roundToNearest :: "real \<Rightarrow> real \<Rightarrow> py_error + real" where
  "roundToNearest x multiple =
     bindE (py_div x multiple) (\<lambda>q. Inr (multiple * of_int (py_round q)))"

definition radiansToAwmf0108 :: "real \<Rightarrow> py_error + int" where
  "radiansToAwmf0108 rads =
     bindE (py_div phaseControlMax (of_int phaseControlRange)) (\<lambda>interval.
     bindE (py_mod rads (2 * pi)) (\<lambda>fixed.
     bindE (roundToNearest fixed interval) (\<lambda>r.
     bindE (py_div r interval) (\<lambda>q.
       let val = trunc q
       in Inr (if val = phaseControlRange then 0 else val)))))"

section \<open>Lists and dictionaries\<close>

text \<open>
  Indexing a Python list out of range raises IndexError. All indices used by the source
  are non-negative (loop counters, and \<open>i - 1\<close>, \<open>j - 1\<close> only where \<open>i\<close>, \<open>j\<close> are at
  least 1), so indices are natural numbers here.
\<close>

definition getitem :: "'a list \<Rightarrow> nat \<Rightarrow> py_error + 'a" where
  "getitem xs i = (if i < length xs then Inr (xs ! i) else Inl IndexError)"

definition setitem :: "'a list \<Rightarrow> nat \<Rightarrow> 'a \<Rightarrow> py_error + 'a list" where
  "setitem xs i v = (if i < length xs then Inr (xs[i := v]) else Inl IndexError)"

definition getitem2 :: "'a list list \<Rightarrow> nat \<Rightarrow> nat \<Rightarrow> py_error + 'a" where
  \<comment> \<open>\<open>xs[i][j]\<close>\<close>
  "getitem2 xs i j = bindE (getitem xs i) (\<lambda>row. getitem row j)"

definition setitem2 :: "'a list list \<Rightarrow> nat \<Rightarrow> nat \<Rightarrow> 'a \<Rightarrow> py_error + 'a list list" where
  \<comment> \<open>\<open>xs[i][j] = v\<close>; the rows are distinct list objects\<close>
  "setitem2 xs i j v =
     bindE (getitem xs i) (\<lambda>row.
     bindE (setitem row j v) (\<lambda>row'. Inr (xs[i := row'])))"

text \<open>
  A dictionary is the list of its items in iteration order (insertion order), with
  distinct keys: storing under an existing key replaces the value in place, storing under
  a new key appends.
\<close>

fun dict_setitem :: "('k \<times> 'v) list \<Rightarrow> 'k \<Rightarrow> 'v \<Rightarrow> ('k \<times> 'v) list" where
  "dict_setitem [] k v = [(k, v)]"
| "dict_setitem ((k', v') # d) k v =
     (if k' = k then (k, v) # d else (k', v') # dict_setitem d k v)"

fun dict_from :: "('k \<times> 'v) list \<Rightarrow> ('k \<times> 'v) list \<Rightarrow> ('k \<times> 'v) list" where
  \<comment> \<open>\<open>dict(pairs)\<close>, started from the dictionary built so far\<close>
  "dict_from d [] = d"
| "dict_from d ((k, v) # kvs) = dict_from (dict_setitem d k v) kvs"

definition dict_getitem :: "('k \<times> 'v) list \<Rightarrow> 'k \<Rightarrow> py_error + 'v" where
  "dict_getitem d k = (case map_of d k of None \<Rightarrow> Inl KeyError | Some v \<Rightarrow> Inr v)"

fun minLoop :: "('a \<Rightarrow> int) \<Rightarrow> 'a \<Rightarrow> 'a list \<Rightarrow> 'a" where
  "minLoop key best [] = best"
| "minLoop key best (x # xs) = minLoop key (if key x < key best then x else best) xs"

definition py_min :: "'a list \<Rightarrow> ('a \<Rightarrow> int) \<Rightarrow> py_error + 'a" where
  \<comment> \<open>\<open>min(xs, key=key)\<close>: the first item whose key is minimal; ValueError on an empty sequence\<close>
  "py_min xs key = (case xs of [] \<Rightarrow> Inl ValueError | x # rest \<Rightarrow> Inr (minLoop key x rest))"

fun comprehend :: "py_error + 'a \<Rightarrow> nat \<Rightarrow> py_error + 'a list" where
  \<comment> \<open>\<open>[e for _ in range(n)]\<close> for an expression \<open>e\<close> that does not depend on the index\<close>
  "comprehend e 0 = Inr []"
| "comprehend e (Suc n) =
     bindE e (\<lambda>v. bindE (comprehend e n) (\<lambda>vs. Inr (v # vs)))"

section \<open>The BeamDefinition object\<close>

type_synonym calMap = "(string \<times> (int \<times> int) list) list"

record BeamDefinition =
  theta :: real
  phi :: real
  beamStrength :: real
  waveLength :: real
  antennaGrid :: "string list list"
  antennaInvert :: "bool list list"
  antennaSpacing :: real
  phaseSettings :: "int list"
  phaseSettingsRaw :: "real list list"
  gainSettings :: "real list list"
  phaseCal :: "calMap option"

text \<open>
  \<open>__init__\<close>. The calibration table is read from a file by \<open>loadPhaseCal\<close>, which returns
  \<open>None\<close> when the file cannot be opened; the outcome of that read is the parameter \<open>cal\<close>.
\<close>

definition init :: "real \<Rightarrow> real \<Rightarrow> real \<Rightarrow> calMap option \<Rightarrow> real \<Rightarrow> BeamDefinition" where
  "init th ph wl cal bs =
     \<lparr> theta = radians th,
       phi = radians ph,
       beamStrength = bs,
       waveLength = wl,
       antennaGrid = [[NE, NW, SE, SW]],
       antennaInvert = [[True, False, True, False]],
       antennaSpacing = 5.4 * (1 / 10 ^ 3),
       phaseSettings = [],
       phaseSettingsRaw = [],
       gainSettings = [],
       phaseCal = cal \<rparr>"

definition setAntenna ::
  "BeamDefinition \<Rightarrow> string list list \<Rightarrow> bool list list \<Rightarrow> real \<Rightarrow> BeamDefinition" where
  "setAntenna s grid invertPattern spacing =
     s\<lparr> antennaGrid := grid,
        antennaSpacing := spacing,
        antennaInvert := invertPattern,
        phaseSettings := [],
        gainSettings := [] \<rparr>"

definition getBeamStrength :: "BeamDefinition \<Rightarrow> real" where
  "getBeamStrength s = beamStrength s"

section \<open>Calibration\<close>

definition truthy :: "calMap option \<Rightarrow> bool" where
  \<comment> \<open>\<open>if calMap:\<close> is false for \<open>None\<close> and for an empty dictionary\<close>
  "truthy calMap = (case calMap of None \<Rightarrow> False | Some d \<Rightarrow> d \<noteq> [])"

definition applyCalibration :: "string \<Rightarrow> int \<Rightarrow> calMap option \<Rightarrow> py_error + int" where
  "applyCalibration quadrant setting calMap =
     (if truthy calMap then
        bindE (dict_getitem (the calMap) quadrant) (\<lambda>table.
        bindE (py_min (map fst table) (\<lambda>x. \<bar>x - setting\<bar>)) (\<lambda>closestSetting.
        bindE (dict_getitem table closestSetting) (\<lambda>off.
          Inr ((setting - off) mod 32))))
      else Inr setting)"

section \<open>Phase field and phase settings\<close>

definition phaseGradients :: "BeamDefinition \<Rightarrow> py_error + real \<times> real" where
  \<comment> \<open>lines 99 to 111 of \<open>getPhaseSettings\<close>: \<open>(ew_phaseOffset, ns_phaseOffset)\<close>\<close>
  "phaseGradients s =
     bindE (py_div (2 * pi) (waveLength s)) (\<lambda>k.
     let p = phi s; t = theta s in
     bindE (py_div (sin p * sin t) (cos t)) (\<lambda>ew_tan.
     let ew_angle = arctan ew_tan in
     bindE (py_div (cos p * sin t) (cos t)) (\<lambda>ns_tan.
     let ns_angle = arctan ns_tan;
         d = antennaSpacing s;
         ew_phaseOffset = - k * d * sin ew_angle;
         ns_phaseOffset = - k * d * sin ns_angle
     in Inr (ew_phaseOffset, ns_phaseOffset))))"

fun colLoop :: "real \<Rightarrow> nat \<Rightarrow> nat list \<Rightarrow> real list list \<Rightarrow> py_error + real list list" where
  \<comment> \<open>\<open>for j in js: offsets[i][j] = offsets[i][j - 1] + ew_phaseOffset\<close>\<close>
  "colLoop ew i [] offsets = Inr offsets"
| "colLoop ew i (j # js) offsets =
     bindE (getitem2 offsets i (j - 1)) (\<lambda>v.
     bindE (setitem2 offsets i j (v + ew)) (\<lambda>offsets'.
       colLoop ew i js offsets'))"

fun rowLoop ::
  "real \<Rightarrow> real \<Rightarrow> string list list \<Rightarrow> nat list \<Rightarrow> real list list \<Rightarrow> py_error + real list list" where
  "rowLoop ew ns grid [] offsets = Inr offsets"
| "rowLoop ew ns grid (i # is) offsets =
     bindE (if i = 0 then setitem2 offsets 0 0 0
            else bindE (getitem2 offsets (i - 1) 0) (\<lambda>v. setitem2 offsets i 0 (v + ns)))
       (\<lambda>offsets1.
     bindE (colLoop ew i [1..<length (grid ! 0)] offsets1) (\<lambda>offsets2.
       rowLoop ew ns grid is offsets2))"

definition rawOffsets :: "string list list \<Rightarrow> real \<Rightarrow> real \<Rightarrow> py_error + real list list" where
  \<comment> \<open>lines 113 to 121: the field before the inversion; \<open>grid ! 0\<close> is only read when
      the grid has a row\<close>
  "rawOffsets grid ew ns =
     rowLoop ew ns grid [0..<length grid]
       (map (\<lambda>y. map (\<lambda>x. 0) [0..<length (grid ! 0)]) [0..<length grid])"

fun invertColLoop ::
  "bool list list \<Rightarrow> nat \<Rightarrow> nat list \<Rightarrow> real list list \<Rightarrow> py_error + real list list" where
  "invertColLoop invert i [] offsets = Inr offsets"
| "invertColLoop invert i (j # js) offsets =
     bindE (getitem2 invert i j) (\<lambda>b.
     bindE (if b then bindE (getitem2 offsets i j) (\<lambda>v. setitem2 offsets i j (v + pi))
            else Inr offsets) (\<lambda>offsets'.
       invertColLoop invert i js offsets'))"

fun invertRowLoop ::
  "bool list list \<Rightarrow> string list list \<Rightarrow> nat list \<Rightarrow> real list list \<Rightarrow> py_error + real list list" where
  "invertRowLoop invert grid [] offsets = Inr offsets"
| "invertRowLoop invert grid (i # is) offsets =
     bindE (invertColLoop invert i [0..<length (grid ! 0)] offsets) (\<lambda>offsets'.
       invertRowLoop invert grid is offsets')"

definition invertOffsets ::
  "bool list list \<Rightarrow> string list list \<Rightarrow> real list list \<Rightarrow> py_error + real list list" where
  \<comment> \<open>lines 126 to 129: the field that is quantized\<close>
  "invertOffsets invert grid offsets = invertRowLoop invert grid [0..<length grid] offsets"

fun quantizeItems :: "(string \<times> real) list \<Rightarrow> py_error + (string \<times> int) list" where
  \<comment> \<open>\<open>{key: self._radiansToAwmf0108(val) for key, val in d_offsets.items()}\<close>\<close>
  "quantizeItems [] = Inr []"
| "quantizeItems ((key, val) # items) =
     bindE (radiansToAwmf0108 val) (\<lambda>setting.
     bindE (quantizeItems items) (\<lambda>rest. Inr ((key, setting) # rest)))"

fun calibrateAll :: "(string \<times> int) list \<Rightarrow> calMap option \<Rightarrow> string list \<Rightarrow> py_error + int list" where
  \<comment> \<open>\<open>[self._applyCalibration(x, s_offsets[x], self.phaseCal) for x in xs]\<close>\<close>
  "calibrateAll s_offsets cal [] = Inr []"
| "calibrateAll s_offsets cal (x # xs) =
     bindE (dict_getitem s_offsets x) (\<lambda>setting.
     bindE (applyCalibration x setting cal) (\<lambda>v.
     bindE (calibrateAll s_offsets cal xs) (\<lambda>vs. Inr (v # vs))))"

definition convertOffsets ::
  "string list list \<Rightarrow> calMap option \<Rightarrow> real list list \<Rightarrow> py_error + int list" where
  \<comment> \<open>lines 132 to 134\<close>
  "convertOffsets grid cal offsets =
     (let d_offsets = dict_from [] (zip (concat grid) (concat offsets)) in
      bindE (quantizeItems d_offsets) (\<lambda>s_offsets.
        calibrateAll s_offsets cal [NE, SE, SW, NW]))"

definition getPhaseSettings :: "BeamDefinition \<Rightarrow> (py_error + int list) \<times> BeamDefinition" where
  "getPhaseSettings s =
     (if length (phaseSettings s) > 0 then (Inr (phaseSettings s), s)
      else
        case bindE (phaseGradients s) (\<lambda>(ew, ns). rawOffsets (antennaGrid s) ew ns) of
          Inl e \<Rightarrow> (Inl e, s)
        | Inr offsets \<Rightarrow>
            let s1 = s\<lparr>phaseSettingsRaw := offsets\<rparr> in
            case bindE (invertOffsets (antennaInvert s1) (antennaGrid s1) offsets)
                   (convertOffsets (antennaGrid s1) (phaseCal s1)) of
              Inl e \<Rightarrow> (Inl e, s1)
            | Inr n_offsets \<Rightarrow> (Inr n_offsets, s1\<lparr>phaseSettings := n_offsets\<rparr>))"

definition getRawPhaseSettings ::
  "BeamDefinition \<Rightarrow> (py_error + real list list) \<times> BeamDefinition" where
  "getRawPhaseSettings s =
     (if length (phaseSettingsRaw s) = 0 then
        case getPhaseSettings s of
          (Inl e, s') \<Rightarrow> (Inl e, s')
        | (Inr r, s') \<Rightarrow> (Inr (phaseSettingsRaw s'), s')
      else (Inr (phaseSettingsRaw s), s))"

definition getRelativeGain ::
  "BeamDefinition \<Rightarrow> (py_error + real list list) \<times> BeamDefinition" where
  "getRelativeGain s =
     (if length (gainSettings s) > 0 then (Inr (gainSettings s), s)
      else
        let xdim = length (antennaGrid s) in
        case bindE (getitem (antennaGrid s) 0) (\<lambda>row0.
               let ydim = length row0 in
               comprehend (comprehend (py_div (beamStrength s) (beamStrength s)) ydim) xdim) of
          Inl e \<Rightarrow> (Inl e, s)
        | Inr g \<Rightarrow> (Inr g, s\<lparr>gainSettings := g\<rparr>))"

section \<open>Array factor\<close>

fun afColLoop ::
  "real \<Rightarrow> real \<Rightarrow> real \<Rightarrow> real \<Rightarrow> real list list \<Rightarrow> real list list \<Rightarrow> nat \<Rightarrow> nat list \<Rightarrow> complex
     \<Rightarrow> py_error + complex" where
  "afColLoop k dst th ph I d n [] cumulativeAF = Inr cumulativeAF"
| "afColLoop k dst th ph I d n (m # ms) cumulativeAF =
     (let costerm = k * dst * real n * sin th * cos ph;
          sinterm = k * dst * real m * sin th * sin ph
      in bindE (getitem2 I n m) (\<lambda>g.
         bindE (getitem2 d n m) (\<lambda>dnm.
           afColLoop k dst th ph I d n ms
             (cumulativeAF + of_real g * exp (\<i> * of_real (dnm + costerm + sinterm))))))"

fun afRowLoop ::
  "real \<Rightarrow> real \<Rightarrow> real \<Rightarrow> real \<Rightarrow> real list list \<Rightarrow> real list list \<Rightarrow> string list list \<Rightarrow> nat list
     \<Rightarrow> complex \<Rightarrow> py_error + complex" where
  "afRowLoop k dst th ph I d grid [] cumulativeAF = Inr cumulativeAF"
| "afRowLoop k dst th ph I d grid (n # ns) cumulativeAF =
     bindE (afColLoop k dst th ph I d n [0..<length (grid ! 0)] cumulativeAF) (\<lambda>af.
       afRowLoop k dst th ph I d grid ns af)"

definition calculateArrayFactor ::
  "BeamDefinition \<Rightarrow> real \<Rightarrow> real \<Rightarrow> real list list \<Rightarrow> real list list \<Rightarrow> real \<Rightarrow> py_error + complex" where
  "calculateArrayFactor s th ph I d wl =
     (let dst = antennaSpacing s in
      bindE (py_div (2 * pi) wl) (\<lambda>k.
        afRowLoop k dst th ph I d (antennaGrid s) [0..<length (antennaGrid s)] 0))"

definition afSample :: "BeamDefinition \<Rightarrow> real \<Rightarrow> real \<Rightarrow> (py_error + complex) \<times> BeamDefinition" where
  \<comment> \<open>line 211: the arguments are evaluated left to right\<close>
  "afSample s t p =
     (case getRelativeGain s of
        (Inl e, s1) \<Rightarrow> (Inl e, s1)
      | (Inr I, s1) \<Rightarrow>
          (case getRawPhaseSettings s1 of
             (Inl e, s2) \<Rightarrow> (Inl e, s2)
           | (Inr d, s2) \<Rightarrow>
               (calculateArrayFactor s2 (radians t) (radians p) I d (waveLength s2), s2)))"

type_synonym point = "real \<times> real \<times> complex"

text \<open>
  The two \<open>while\<close> loops of \<open>generateAllAF\<close> step a float until it reaches a bound, and do
  not terminate when the step is not positive: not returning is the value \<open>None\<close>.
  The inner loop is always entered with \<open>p = 0\<close>.
\<close>

partial_function (option) phiLoop ::
  "bool \<Rightarrow> real \<Rightarrow> real \<Rightarrow> real \<Rightarrow> real \<Rightarrow> BeamDefinition \<Rightarrow> point list \<Rightarrow> complex
     \<Rightarrow> ((py_error + point list \<times> complex) \<times> BeamDefinition) option" where
  "phiLoop absAf p_max p_d t p s points af_max =
     (if p < p_max then
        (case afSample s t p of
           (Inl e, s') \<Rightarrow> Some (Inl e, s')
         | (Inr a0, s') \<Rightarrow>
             (let a = (if absAf then of_real (cmod a0) else a0)
              in phiLoop absAf p_max p_d t (p + p_d) s' (points @ [(t, p, a)])
                   (if cmod a > cmod af_max then a else af_max)))
      else Some (Inr (points, af_max), s))"

partial_function (option) thetaLoop ::
  "bool \<Rightarrow> real \<Rightarrow> real \<Rightarrow> real \<Rightarrow> real \<Rightarrow> real \<Rightarrow> BeamDefinition \<Rightarrow> point list \<Rightarrow> complex
     \<Rightarrow> ((py_error + point list \<times> complex) \<times> BeamDefinition) option" where
  "thetaLoop absAf t_max p_max p_d t_d t s points af_max =
     (if t < t_max then
        Option.bind (phiLoop absAf p_max p_d t 0 s points af_max) (\<lambda>r.
          case r of
            (Inl e, s') \<Rightarrow> Some (Inl e, s')
          | (Inr (points', af_max'), s') \<Rightarrow>
              thetaLoop absAf t_max p_max p_d t_d (t + t_d) s' points' af_max')
      else Some (Inr (points, af_max), s))"

fun normalizePoints :: "point list \<Rightarrow> complex \<Rightarrow> py_error + point list" where
  \<comment> \<open>\<open>[(t, p, a/abs(af_max)) for (t, p, a) in points]\<close>\<close>
  "normalizePoints [] af_max = Inr []"
| "normalizePoints ((t, p, a) # points) af_max =
     (if cmod af_max = 0 then Inl ZeroDivisionError
      else bindE (normalizePoints points af_max) (\<lambda>rest.
             Inr ((t, p, a / of_real (cmod af_max)) # rest)))"

definition generateAllAF ::
  "BeamDefinition \<Rightarrow> real \<Rightarrow> real \<Rightarrow> bool \<Rightarrow> bool \<Rightarrow> bool
     \<Rightarrow> ((py_error + point list) \<times> BeamDefinition) option" where
  "generateAllAF s n_theta n_phi normalized absAf backLobes =
     (let t_max = (if backLobes then 180 else 90); p_max = 360 in
      case bindE (py_div p_max n_phi) (\<lambda>p_d.
           bindE (py_div t_max n_theta) (\<lambda>t_d. Inr (p_d, t_d))) of
        Inl e \<Rightarrow> Some (Inl e, s)
      | Inr (p_d, t_d) \<Rightarrow>
          Option.bind (thetaLoop absAf t_max p_max p_d t_d 0 s [] (- 1)) (\<lambda>r.
            case r of
              (Inl e, s') \<Rightarrow> Some (Inl e, s')
            | (Inr (points, af_max), s') \<Rightarrow>
                if normalized then Some (normalizePoints points af_max, s')
                else Some (Inr points, s')))"

section \<open>The caller in BeamDemo.py\<close>

definition regulatePhi :: "real \<Rightarrow> py_error + real" where
  \<comment> \<open>lines 129 and 130 of \<open>sketchAfPattern\<close>: the value the phi box holds afterwards\<close>
  "regulatePhi v = (if v < 0 \<or> 360 \<le> v then py_mod v 360 else Inr v)"

section \<open>Basic facts\<close>

lemma bindE_simps [simp]:
  "bindE (Inl e) f = Inl e"
  "bindE (Inr x) f = f x"
  by (simp_all add: bindE_def)

lemma trunc_of_int [simp]: "trunc (of_int n) = n"
  by (simp add: trunc_def)


lemma py_round_mono_lower: "of_int n \<le> x \<Longrightarrow> n \<le> py_round x"
  unfolding py_round_def Let_def by (auto split: if_splits simp: le_floor_iff) linarith+

lemma py_round_upper: "x \<le> of_int n \<Longrightarrow> py_round x \<le> n"
proof -
  assume h: "x \<le> of_int n"
  have fl: "\<lfloor>x\<rfloor> \<le> n" using h by (simp add: floor_le_iff)
  show ?thesis
  proof (cases "\<lfloor>x\<rfloor> = n")
    case True
    then have "x = of_int n" using h by (metis of_int_floor_le order_antisym)
    then show ?thesis by (simp add: py_round_def)
  next
    case False
    then have "\<lfloor>x\<rfloor> + 1 \<le> n" using fl by linarith
    then show ?thesis unfolding py_round_def Let_def by (auto split: if_splits)
  qed
qed

section \<open>The quantizer\<close>

lemma py_mod_range:
  fixes x m :: real
  assumes "0 < m"
  shows "0 \<le> x - m * of_int \<lfloor>x / m\<rfloor>" and "x - m * of_int \<lfloor>x / m\<rfloor> < m"
  using floor_divide_lower [OF assms, of x] floor_divide_upper [OF assms, of x]
  by (simp_all add: algebra_simps)

lemma radiansToAwmf0108_eq:
  "radiansToAwmf0108 r =
     Inr (let n = py_round ((r - 2 * pi * of_int \<lfloor>r / (2 * pi)\<rfloor>) / (2 * pi / 32))
          in if n = 32 then 0 else n)"
  by (simp add: radiansToAwmf0108_def roundToNearest_def py_div_def py_mod_def
      phaseControlMax_def phaseControlRange_def Let_def)

lemma py_round_fixed_range:
  fixes fixed :: real
  assumes "0 \<le> fixed" "fixed < 2 * pi"
  shows "0 \<le> py_round (fixed / (2 * pi / 32))" and "py_round (fixed / (2 * pi / 32)) \<le> 32"
proof -
  have q0: "of_int 0 \<le> fixed / (2 * pi / 32)" using assms by simp
  have "fixed / (2 * pi / 32) \<le> 32" using assms by (simp add: divide_le_eq)
  then have q1: "fixed / (2 * pi / 32) \<le> of_int 32" by simp
  show "0 \<le> py_round (fixed / (2 * pi / 32))" by (rule py_round_mono_lower [OF q0])
  show "py_round (fixed / (2 * pi / 32)) \<le> 32" by (rule py_round_upper [OF q1])
qed

lemma radiansToAwmf0108_range:
  "\<exists>v. radiansToAwmf0108 r = Inr v \<and> 0 \<le> v \<and> v \<le> 31"
proof -
  let ?fixed = "r - 2 * pi * of_int \<lfloor>r / (2 * pi)\<rfloor>"
  let ?n = "py_round (?fixed / (2 * pi / 32))"
  have r: "0 \<le> ?fixed" "?fixed < 2 * pi"
    using py_mod_range [of "2 * pi" r] by simp_all
  have "0 \<le> ?n" "?n \<le> 32" using py_round_fixed_range [OF r] by simp_all
  then show ?thesis by (auto simp: radiansToAwmf0108_eq Let_def)
qed








section \<open>Calibration lookup\<close>

lemma minLoop_mem: "minLoop key best xs \<in> set (best # xs)"
  by (induction xs arbitrary: best) auto

lemma minLoop_le: "y \<in> set (best # xs) \<Longrightarrow> key (minLoop key best xs) \<le> key y"
proof (induction xs arbitrary: best y)
  case Nil
  then show ?case by simp
next
  case (Cons x xs)
  let ?b = "if key x < key best then x else best"
  have b: "key ?b \<le> key best" "key ?b \<le> key x" by auto
  have step: "key (minLoop key ?b xs) \<le> key ?b" using Cons.IH [of ?b ?b] by simp
  from Cons.prems consider "y = best" | "y = x" | "y \<in> set xs" by auto
  then show ?case
  proof cases
    case 1
    then show ?thesis using step b by simp
  next
    case 2
    then show ?thesis using step b by simp
  next
    case 3
    then have "y \<in> set (?b # xs)" by simp
    then have "key (minLoop key ?b xs) \<le> key y" using Cons.IH [of y ?b] by blast
    then show ?thesis by simp
  qed
qed

lemma py_min_nonempty:
  assumes "xs \<noteq> []"
  shows "\<exists>k. py_min xs key = Inr k \<and> k \<in> set xs \<and> (\<forall>y\<in>set xs. key k \<le> key y)"
proof -
  from assms obtain x rest where xs: "xs = x # rest" by (cases xs) auto
  have "minLoop key x rest \<in> set xs" unfolding xs by (rule minLoop_mem)
  moreover have "\<forall>y\<in>set xs. key (minLoop key x rest) \<le> key y"
    unfolding xs using minLoop_le [of _ x rest key] by blast
  ultimately show ?thesis by (simp add: py_min_def xs)
qed

lemma map_of_key_Some: "k \<in> fst ` set table \<Longrightarrow> \<exists>v. map_of table k = Some v"
  by (cases "map_of table k") (auto simp: map_of_eq_None_iff)

lemma applyCalibration_table:
  assumes d: "d \<noteq> []" and q: "map_of d quadrant = Some table" and t: "table \<noteq> []"
  shows "\<exists>k off. k \<in> fst ` set table \<and> (\<forall>k'\<in>fst ` set table. \<bar>k - setting\<bar> \<le> \<bar>k' - setting\<bar>)
           \<and> map_of table k = Some off
           \<and> applyCalibration quadrant setting (Some d) = Inr ((setting - off) mod 32)"
proof -
  from t have "map fst table \<noteq> []" by simp
  from py_min_nonempty [OF this, of "\<lambda>x. \<bar>x - setting\<bar>"]
  obtain k where k: "py_min (map fst table) (\<lambda>x. \<bar>x - setting\<bar>) = Inr k"
    "k \<in> fst ` set table" "\<forall>y\<in>fst ` set table. \<bar>k - setting\<bar> \<le> \<bar>y - setting\<bar>"
    by auto
  from map_of_key_Some [OF k(2)] obtain off where off: "map_of table k = Some off" by blast
  have "applyCalibration quadrant setting (Some d) = Inr ((setting - off) mod 32)"
    using d q k(1) off by (simp add: applyCalibration_def truthy_def dict_getitem_def)
  with k off show ?thesis by blast
qed

text \<open>
  Claim C2, as amended. \<open>_applyCalibration\<close> returns the setting unmodified when no table
  is present at all (\<open>None\<close>, or an empty mapping). When a table is present and holds a
  non-empty mapping for the quadrant, it picks a key of that mapping whose absolute
  difference from the setting is minimal, subtracts that key's correction offset and
  reduces the result modulo 32 into \<open>[0, 32)\<close>. When a table is present but has no entry
  for the quadrant, it raises KeyError (ValueError when the quadrant's mapping is empty).
\<close>

theorem applyCalibration_nearest_key:
  "applyCalibration quadrant setting None = Inr setting
   \<and> applyCalibration quadrant setting (Some []) = Inr setting
   \<and> (\<forall>d table. d \<noteq> [] \<and> map_of d quadrant = Some table \<and> table \<noteq> [] \<longrightarrow>
        (\<exists>k off. k \<in> fst ` set table
           \<and> (\<forall>k'\<in>fst ` set table. \<bar>k - setting\<bar> \<le> \<bar>k' - setting\<bar>)
           \<and> map_of table k = Some off
           \<and> applyCalibration quadrant setting (Some d) = Inr ((setting - off) mod 32)
           \<and> 0 \<le> (setting - off) mod 32 \<and> (setting - off) mod 32 < 32))
   \<and> (\<forall>d. d \<noteq> [] \<and> map_of d quadrant = None \<longrightarrow>
        applyCalibration quadrant setting (Some d) = Inl KeyError)
   \<and> (\<forall>d. d \<noteq> [] \<and> map_of d quadrant = Some [] \<longrightarrow>
        applyCalibration quadrant setting (Some d) = Inl ValueError)"
proof -
  have a: "applyCalibration quadrant setting None = Inr setting"
    by (simp add: applyCalibration_def truthy_def)
  have b: "applyCalibration quadrant setting (Some []) = Inr setting"
    by (simp add: applyCalibration_def truthy_def)
  have c: "\<exists>k off. k \<in> fst ` set table
           \<and> (\<forall>k'\<in>fst ` set table. \<bar>k - setting\<bar> \<le> \<bar>k' - setting\<bar>)
           \<and> map_of table k = Some off
           \<and> applyCalibration quadrant setting (Some d) = Inr ((setting - off) mod 32)
           \<and> 0 \<le> (setting - off) mod 32 \<and> (setting - off) mod 32 < 32"
    if "d \<noteq> [] \<and> map_of d quadrant = Some table \<and> table \<noteq> []" for d table
  proof -
    from that applyCalibration_table [of d quadrant table setting]
    obtain k off where "k \<in> fst ` set table"
      "\<forall>k'\<in>fst ` set table. \<bar>k - setting\<bar> \<le> \<bar>k' - setting\<bar>"
      "map_of table k = Some off"
      "applyCalibration quadrant setting (Some d) = Inr ((setting - off) mod 32)"
      by blast
    moreover have "0 \<le> (setting - off) mod 32" "(setting - off) mod 32 < 32" by simp_all
    ultimately show ?thesis by blast
  qed
  have e: "applyCalibration quadrant setting (Some d) = Inl KeyError"
    if "d \<noteq> [] \<and> map_of d quadrant = None" for d
    using that by (simp add: applyCalibration_def truthy_def dict_getitem_def)
  have f: "applyCalibration quadrant setting (Some d) = Inl ValueError"
    if "d \<noteq> [] \<and> map_of d quadrant = Some []" for d
    using that by (simp add: applyCalibration_def truthy_def dict_getitem_def py_min_def)
  show ?thesis
    by (intro conjI allI impI a b) (rule c e f, assumption)+
qed

theorem applyCalibration_nearest_key_witness:
  "[(NE, [(10, 2)])] \<noteq> [] \<and> map_of [(NE, [(10::int, 2::int)])] NE = Some [(10, 2)]
   \<and> [(10::int, 2::int)] \<noteq> []
   \<and> applyCalibration NE 31 (Some [(NE, [(10, 2)])]) = Inr 29
   \<and> applyCalibration NE 10 (Some [(NE, [(10, 2)])]) = Inr 8
   \<and> map_of [(NE, [(10::int, 2::int)])] SE = None
   \<and> applyCalibration SE 10 (Some [(NE, [(10, 2)])]) = Inl KeyError"
proof -
  let ?d = "[(NE, [(10::int, 2::int)])]"
  have h: "?d \<noteq> [] \<and> map_of ?d NE = Some [(10, 2)] \<and> [(10::int, 2::int)] \<noteq> []" by simp
  have n: "?d \<noteq> [] \<and> map_of ?d SE = None" by (simp add: NE_def SE_def)
  note t31 = applyCalibration_nearest_key [of NE 31, THEN conjunct2, THEN conjunct2,
      THEN conjunct1, rule_format, OF h]
  note t10 = applyCalibration_nearest_key [of NE 10, THEN conjunct2, THEN conjunct2,
      THEN conjunct1, rule_format, OF h]
  note tse = applyCalibration_nearest_key [of SE 10, THEN conjunct2, THEN conjunct2,
      THEN conjunct2, THEN conjunct1, rule_format, OF n]
  from t31 obtain k off where "k \<in> fst ` set [(10::int, 2::int)]"
    "map_of [(10::int, 2::int)] k = Some off"
    "applyCalibration NE 31 (Some ?d) = Inr ((31 - off) mod 32)" by (elim exE conjE)
  then have a: "applyCalibration NE 31 (Some ?d) = Inr 29" by auto
  from t10 obtain k off where "k \<in> fst ` set [(10::int, 2::int)]"
    "map_of [(10::int, 2::int)] k = Some off"
    "applyCalibration NE 10 (Some ?d) = Inr ((10 - off) mod 32)" by (elim exE conjE)
  then have b: "applyCalibration NE 10 (Some ?d) = Inr 8" by auto
  show ?thesis using h n a b tse by simp
qed

text \<open>
  The claim as stated fails: with a table that only has an entry for NE, the setting of
  SE is not returned unmodified.
\<close>

theorem applyCalibration_missing_quadrant_counterexample:
  "map_of [(NE, [(10::int, 2::int)])] SE = None
   \<and> applyCalibration SE 5 (Some [(NE, [(10, 2)])]) \<noteq> Inr 5"
  by (simp add: applyCalibration_def truthy_def dict_getitem_def NE_def SE_def)

section \<open>The raw and the inverted phase field\<close>

lemma getitem_in [simp]: "i < length xs \<Longrightarrow> getitem xs i = Inr (xs ! i)"
  by (simp add: getitem_def)

lemma getitem_out [simp]: "\<not> i < length xs \<Longrightarrow> getitem xs i = Inl IndexError"
  by (simp add: getitem_def)

lemma getitem2_in:
  "i < length xs \<Longrightarrow> j < length (xs ! i) \<Longrightarrow> getitem2 xs i j = Inr (xs ! i ! j)"
  by (simp add: getitem2_def)

lemma setitem2_in:
  "i < length xs \<Longrightarrow> j < length (xs ! i) \<Longrightarrow>
     setitem2 xs i j v = Inr (xs[i := (xs ! i)[j := v]])"
  by (simp add: setitem2_def setitem_def)

lemma ramp_update:
  assumes "length front = a"
  shows "(front @ z # zs)[a := x] = (front @ [x]) @ zs"
  using assms by (simp add: list_update_append)

lemma colLoop_ramp:
  assumes "i < length offs"
    and "offs ! i = map (\<lambda>j. v0 + real j * ew) [0..<a] @ zs"
    and "1 \<le> a"
    and "a + length zs = cols"
  shows "colLoop ew i [a..<cols] offs = Inr (offs[i := map (\<lambda>j. v0 + real j * ew) [0..<cols]])"
  using assms
proof (induction zs arbitrary: a offs)
  case Nil
  then have "a = cols" by simp
  with Nil have "offs[i := map (\<lambda>j. v0 + real j * ew) [0..<cols]] = offs"
    by (metis append_Nil2 list_update_id)
  with \<open>a = cols\<close> show ?case by simp
next
  case (Cons z zs)
  let ?f = "\<lambda>j. v0 + real j * ew"
  let ?row = "map ?f [0..<a] @ z # zs"
  have lt: "a < cols" using Cons.prems by simp
  have upt: "[a..<cols] = a # [Suc a..<cols]" using lt by (simp add: upt_conv_Cons)
  have len: "length (offs ! i) = cols" using Cons.prems by simp
  have prev: "offs ! i ! (a - 1) = ?f (a - 1)"
    using Cons.prems by (simp add: nth_append)
  have g: "getitem2 offs i (a - 1) = Inr (?f (a - 1))"
    using Cons.prems lt len prev by (simp add: getitem2_in)
  have val: "?f (a - 1) + ew = ?f a"
    using Cons.prems(3) by (simp add: algebra_simps of_nat_diff)
  have st: "setitem2 offs i a (?f a) = Inr (offs[i := (offs ! i)[a := ?f a]])"
    using Cons.prems lt len by (simp add: setitem2_in)
  have row': "(offs ! i)[a := ?f a] = map ?f [0..<Suc a] @ zs"
    using Cons.prems(2) ramp_update [of "map ?f [0..<a]" a z zs "?f a"] by simp
  let ?offs' = "offs[i := map ?f [0..<Suc a] @ zs]"
  have ih: "colLoop ew i [Suc a..<cols] ?offs' = Inr (?offs'[i := map ?f [0..<cols]])"
  proof (rule Cons.IH)
    show "i < length ?offs'" using Cons.prems by simp
    show "?offs' ! i = map ?f [0..<Suc a] @ zs" using Cons.prems by simp
    show "1 \<le> Suc a" by simp
    show "Suc a + length zs = cols" using Cons.prems by simp
  qed
  show ?case
    unfolding upt colLoop.simps g bindE_simps val st row' ih by simp
qed


lemma rowLoop_ramp:
  assumes "length (grid ! 0) = cols" and "1 \<le> cols"
    and "offs = map (\<lambda>i. map (\<lambda>j. real i * ns + real j * ew) [0..<cols]) [0..<b] @ zs"
    and "\<forall>z\<in>set zs. z = replicate cols 0"
    and "b + length zs = rows"
  shows "rowLoop ew ns grid [b..<rows] offs =
           Inr (map (\<lambda>i. map (\<lambda>j. real i * ns + real j * ew) [0..<cols]) [0..<rows])"
  using assms
proof (induction zs arbitrary: b offs)
  case Nil
  then show ?case by simp
next
  case (Cons z zs)
  let ?F = "\<lambda>i. map (\<lambda>j. real i * ns + real j * ew) [0..<cols]"
  have lt: "b < rows" using Cons.prems by simp
  have upt: "[b..<rows] = b # [Suc b..<rows]" using lt by (simp add: upt_conv_Cons)
  have z: "z = replicate cols 0" using Cons.prems by simp
  have offs: "offs = map ?F [0..<b] @ z # zs" using Cons.prems by simp
  have lb: "b < length offs" unfolding offs by simp
  have rowb: "offs ! b = z" unfolding offs by (simp add: nth_append)
  have zlen: "0 < length z" using z Cons.prems(2) by simp
  obtain n where n: "cols = Suc n" using Cons.prems(2) by (cases cols) auto
  let ?r1 = "(real b * ns) # replicate n 0"
  have first: "(if b = 0 then setitem2 offs 0 0 0
                else bindE (getitem2 offs (b - 1) 0) (\<lambda>v. setitem2 offs b 0 (v + ns)))
               = Inr (offs[b := ?r1])"
  proof (cases "b = 0")
    case True
    then show ?thesis using lb rowb z n by (simp add: setitem2_in)
  next
    case False
    then have p: "b - 1 < length offs" "offs ! (b - 1) = ?F (b - 1)"
      using lb unfolding offs by (simp_all add: nth_append)
    have e0: "?F (b - 1) ! 0 = real (b - 1) * ns" "0 < length (?F (b - 1))"
      using Cons.prems(2) by simp_all
    have "getitem2 offs (b - 1) 0 = Inr (real (b - 1) * ns)"
      using p(1) e0 unfolding getitem2_def p(2) [symmetric] by simp
    moreover have "real (b - 1) * ns + ns = real b * ns"
      using False by (simp add: algebra_simps of_nat_diff)
    moreover have "setitem2 offs b 0 (real b * ns) = Inr (offs[b := ?r1])"
      using lb rowb z n by (simp add: setitem2_in)
    ultimately show ?thesis using False by simp
  qed
  let ?offs1 = "offs[b := ?r1]"
  have c: "colLoop ew b [1..<cols] ?offs1 = Inr (?offs1[b := map (\<lambda>j. real b * ns + real j * ew) [0..<cols]])"
  proof (rule colLoop_ramp [where zs = "replicate n 0"])
    show "b < length ?offs1" using lb by simp
    show "?offs1 ! b = map (\<lambda>j. real b * ns + real j * ew) [0..<1] @ replicate n 0"
      using lb by simp
    show "(1::nat) \<le> 1" by simp
    show "1 + length (replicate n (0::real)) = cols" using n by simp
  qed
  have upd: "?offs1[b := ?F b] = map ?F [0..<Suc b] @ zs"
    unfolding offs by (simp add: list_update_append)
  have ih: "rowLoop ew ns grid [Suc b..<rows] (map ?F [0..<Suc b] @ zs) = Inr (map ?F [0..<rows])"
  proof (rule Cons.IH)
    show "length (grid ! 0) = cols" by (rule Cons.prems(1))
    show "1 \<le> cols" by (rule Cons.prems(2))
    show "map ?F [0..<Suc b] @ zs = map ?F [0..<Suc b] @ zs" by simp
    show "\<forall>z\<in>set zs. z = replicate cols 0" using Cons.prems(4) by simp
    show "Suc b + length zs = rows" using Cons.prems(5) by simp
  qed
  show ?case
    unfolding upt rowLoop.simps first bindE_simps Cons.prems(1) c upd ih by simp
qed

lemma rawOffsets_ramp:
  assumes "1 \<le> length (grid ! 0)"
  shows "rawOffsets grid ew ns =
           Inr (map (\<lambda>i. map (\<lambda>j. real i * ns + real j * ew) [0..<length (grid ! 0)])
                  [0..<length grid])"
  unfolding rawOffsets_def
proof (rule rowLoop_ramp [where zs = "replicate (length grid) (replicate (length (grid ! 0)) 0)"])
  show "length (grid ! 0) = length (grid ! 0)" by simp
  show "1 \<le> length (grid ! 0)" by (rule assms)
  show "map (\<lambda>y. map (\<lambda>x. 0) [0..<length (grid ! 0)]) [0..<length grid] =
        map (\<lambda>i. map (\<lambda>j. real i * ns + real j * ew) [0..<length (grid ! 0)]) [0..<0] @
        replicate (length grid) (replicate (length (grid ! 0)) 0)"
    by (simp add: map_replicate_const)
  show "\<forall>z\<in>set (replicate (length grid) (replicate (length (grid ! 0)) (0::real))).
          z = replicate (length (grid ! 0)) 0" by simp
  show "0 + length (replicate (length grid) (replicate (length (grid ! 0)) (0::real))) = length grid"
    by simp
qed

lemma rawOffsets_empty_grid: "rawOffsets [] ew ns = Inr []"
  by (simp add: rawOffsets_def)

lemma rawOffsets_no_columns:
  assumes "grid \<noteq> []" and "grid ! 0 = []"
  shows "rawOffsets grid ew ns = Inl IndexError"
proof -
  have "[0..<length grid] = 0 # [1..<length grid]" using assms(1) by (simp add: upt_conv_Cons)
  then show ?thesis using assms
    by (simp add: rawOffsets_def setitem2_def setitem_def)
qed


lemma invertColLoop_row:
  assumes "i < length offs" and "i < length msk" and "cols \<le> length (msk ! i)"
    and "length r = cols"
    and "offs ! i = map (\<lambda>j. r ! j + (if msk ! i ! j then pi else 0)) [0..<a] @ drop a r"
    and "a \<le> cols"
  shows "invertColLoop msk i [a..<cols] offs =
           Inr (offs[i := map (\<lambda>j. r ! j + (if msk ! i ! j then pi else 0)) [0..<cols]])"
  using assms
proof (induction "cols - a" arbitrary: a offs)
  case 0
  then have "a = cols" by simp
  with 0 have "offs[i := map (\<lambda>j. r ! j + (if msk ! i ! j then pi else 0)) [0..<cols]] = offs"
    by (metis append_Nil2 drop_all list_update_id order_refl)
  with \<open>a = cols\<close> show ?case by simp
next
  case (Suc n)
  let ?g = "\<lambda>j. r ! j + (if msk ! i ! j then pi else 0)"
  have lt: "a < cols" using Suc.hyps(2) by simp
  have upt: "[a..<cols] = a # [Suc a..<cols]" using lt by (simp add: upt_conv_Cons)
  have dr: "drop a r = r ! a # drop (Suc a) r"
    using lt Suc.prems(4) by (simp add: Cons_nth_drop_Suc)
  have row: "offs ! i = map ?g [0..<a] @ r ! a # drop (Suc a) r"
    using Suc.prems(5) dr by simp
  have len: "length (offs ! i) = cols" unfolding row using lt Suc.prems(4) by simp
  have cur: "offs ! i ! a = r ! a" unfolding row by (simp add: nth_append)
  have m: "getitem2 msk i a = Inr (msk ! i ! a)"
    using Suc.prems(2,3) lt by (simp add: getitem2_in)
  have upd: "(offs ! i)[a := ?g a] = map ?g [0..<Suc a] @ drop (Suc a) r"
    unfolding row using ramp_update [of "map ?g [0..<a]" a "r ! a" "drop (Suc a) r" "?g a"] by simp
  let ?offs' = "offs[i := map ?g [0..<Suc a] @ drop (Suc a) r]"
  have step: "(if msk ! i ! a then bindE (getitem2 offs i a) (\<lambda>v. setitem2 offs i a (v + pi))
              else Inr offs) = Inr ?offs'"
  proof (cases "msk ! i ! a")
    case True
    then show ?thesis
      using Suc.prems(1) lt len cur upd by (simp add: getitem2_in setitem2_in)
  next
    case False
    then have "(offs ! i)[a := ?g a] = offs ! i" unfolding row by (simp add: list_update_append)
    then have "?offs' = offs" using upd by (metis list_update_id)
    then show ?thesis using False by simp
  qed
  have ih: "invertColLoop msk i [Suc a..<cols] ?offs' = Inr (?offs'[i := map ?g [0..<cols]])"
  proof (rule Suc.hyps(1))
    show "n = cols - Suc a" using Suc.hyps(2) by simp
    show "i < length ?offs'" using Suc.prems(1) by simp
    show "i < length msk" by (rule Suc.prems(2))
    show "cols \<le> length (msk ! i)" by (rule Suc.prems(3))
    show "length r = cols" by (rule Suc.prems(4))
    show "?offs' ! i = map ?g [0..<Suc a] @ drop (Suc a) r" using Suc.prems(1) by simp
    show "Suc a \<le> cols" using lt by simp
  qed
  show ?case unfolding upt invertColLoop.simps m bindE_simps step ih by simp
qed

lemma invertRowLoop_field:
  assumes "length offs0 = rows" and "\<forall>i<rows. length (offs0 ! i) = cols"
    and "length (grid ! 0) = cols"
    and "\<forall>i<rows. i < length msk \<and> cols \<le> length (msk ! i)"
    and "offs = map (\<lambda>i. map (\<lambda>j. offs0 ! i ! j + (if msk ! i ! j then pi else 0)) [0..<cols])
                  [0..<b] @ drop b offs0"
    and "b \<le> rows"
  shows "invertRowLoop msk grid [b..<rows] offs =
           Inr (map (\<lambda>i. map (\<lambda>j. offs0 ! i ! j + (if msk ! i ! j then pi else 0)) [0..<cols])
                  [0..<rows])"
  using assms
proof (induction "rows - b" arbitrary: b offs)
  case 0
  then show ?case by simp
next
  case (Suc n)
  let ?G = "\<lambda>i. map (\<lambda>j. offs0 ! i ! j + (if msk ! i ! j then pi else 0)) [0..<cols]"
  have lt: "b < rows" using Suc.hyps(2) by simp
  have upt: "[b..<rows] = b # [Suc b..<rows]" using lt by (simp add: upt_conv_Cons)
  have dr: "drop b offs0 = offs0 ! b # drop (Suc b) offs0"
    using lt Suc.prems(1) by (simp add: Cons_nth_drop_Suc)
  have offs: "offs = map ?G [0..<b] @ offs0 ! b # drop (Suc b) offs0"
    using Suc.prems(5) dr by simp
  have lb: "b < length offs" unfolding offs by simp
  have rowb: "offs ! b = offs0 ! b" unfolding offs by (simp add: nth_append)
  have c: "invertColLoop msk b [0..<cols] offs = Inr (offs[b := ?G b])"
  proof (rule invertColLoop_row [where r = "offs0 ! b"])
    show "b < length offs" by (rule lb)
    show "b < length msk" using Suc.prems(4) lt by simp
    show "cols \<le> length (msk ! b)" using Suc.prems(4) lt by simp
    show "length (offs0 ! b) = cols" using Suc.prems(2) lt by simp
    show "offs ! b = map (\<lambda>j. offs0 ! b ! j + (if msk ! b ! j then pi else 0)) [0..<0] @
            drop 0 (offs0 ! b)" using rowb by simp
    show "0 \<le> cols" by simp
  qed
  have upd: "offs[b := ?G b] = map ?G [0..<Suc b] @ drop (Suc b) offs0"
    unfolding offs by (simp add: list_update_append)
  have ih: "invertRowLoop msk grid [Suc b..<rows] (map ?G [0..<Suc b] @ drop (Suc b) offs0)
              = Inr (map ?G [0..<rows])"
  proof (rule Suc.hyps(1))
    show "n = rows - Suc b" using Suc.hyps(2) by simp
    show "length offs0 = rows" by (rule Suc.prems(1))
    show "\<forall>i<rows. length (offs0 ! i) = cols" by (rule Suc.prems(2))
    show "length (grid ! 0) = cols" by (rule Suc.prems(3))
    show "\<forall>i<rows. i < length msk \<and> cols \<le> length (msk ! i)" by (rule Suc.prems(4))
    show "map ?G [0..<Suc b] @ drop (Suc b) offs0 = map ?G [0..<Suc b] @ drop (Suc b) offs0"
      by simp
    show "Suc b \<le> rows" using lt by simp
  qed
  show ?case
    unfolding upt invertRowLoop.simps Suc.prems(3) c bindE_simps upd ih by simp
qed

lemma invertOffsets_field:
  assumes "length offs0 = length grid" and "\<forall>i<length grid. length (offs0 ! i) = length (grid ! 0)"
    and "\<forall>i<length grid. i < length msk \<and> length (grid ! 0) \<le> length (msk ! i)"
  shows "invertOffsets msk grid offs0 =
           Inr (map (\<lambda>i. map (\<lambda>j. offs0 ! i ! j + (if msk ! i ! j then pi else 0))
                           [0..<length (grid ! 0)]) [0..<length grid])"
  unfolding invertOffsets_def
  by (rule invertRowLoop_field [where offs0 = offs0]) (use assms in simp_all)

section \<open>Dictionaries and the conversion to settings\<close>

lemma map_of_dict_setitem: "map_of (dict_setitem d k v) = (map_of d)(k \<mapsto> v)"
  by (induction d k v rule: dict_setitem.induct) auto

lemma map_of_dict_from: "map_of (dict_from d kvs) = map_of d ++ map_of (rev kvs)"
proof (induction d kvs rule: dict_from.induct)
  case (1 d)
  then show ?case by simp
next
  case (2 d k v kvs)
  show ?case unfolding dict_from.simps 2
    by (rule ext) (simp add: map_of_dict_setitem map_add_def split: option.splits)
qed

lemma radiansToAwmf0108_total:
  "radiansToAwmf0108 r = Inr (projr (radiansToAwmf0108 r))"
  by (simp add: radiansToAwmf0108_eq)

lemma radiansToAwmf0108_projr_range:
  "0 \<le> projr (radiansToAwmf0108 r)" "projr (radiansToAwmf0108 r) \<le> 31"
  using radiansToAwmf0108_range [of r] by auto

lemma quantizeItems_total:
  "quantizeItems d = Inr (map (\<lambda>(k, v). (k, projr (radiansToAwmf0108 v))) d)"
proof (induction d)
  case Nil
  then show ?case by simp
next
  case (Cons kv d)
  obtain k v where kv: "kv = (k, v)" by (cases kv)
  show ?case unfolding kv quantizeItems.simps Cons.IH
    by (subst radiansToAwmf0108_total) simp
qed

lemma s_offsets_getitem:
  "dict_getitem (map (\<lambda>(k, v). (k, projr (radiansToAwmf0108 v))) (dict_from [] (zip ks vs))) x
     = (case map_of (rev (zip ks vs)) x of
          None \<Rightarrow> Inl KeyError
        | Some v \<Rightarrow> Inr (projr (radiansToAwmf0108 v)))"
  by (simp add: dict_getitem_def map_of_map map_of_dict_from split: option.splits)

lemma map_of_rev_zip_None:
  "length ks = length vs \<Longrightarrow> map_of (rev (zip ks vs)) x = None \<longleftrightarrow> x \<notin> set ks"
proof -
  assume l: "length ks = length vs"
  have "fst ` set (zip ks vs) = set (map fst (zip ks vs))" by simp
  also have "\<dots> = set ks" using l by (simp only: map_fst_zip)
  finally show ?thesis by (simp add: map_of_eq_None_iff)
qed

lemma map_of_rev_zip_absent: "x \<notin> set ks \<Longrightarrow> map_of (rev (zip ks vs)) x = None"
  by (auto simp: map_of_eq_None_iff dest: set_zip_leftD)

lemma map_of_rev_zip_row:
  assumes "length g = length q" and "map_of (rev (zip g q)) x = Some v"
  shows "\<exists>j<length g. g ! j = x \<and> q ! j = v \<and> (\<forall>j'<length g. g ! j' = x \<longrightarrow> j' \<le> j)"
  using assms
proof (induction g q rule: list_induct2)
  case Nil
  then show ?case by simp
next
  case (Cons a g b q)
  show ?case
  proof (cases "map_of (rev (zip g q)) x")
    case None
    then have nx: "x \<notin> set g" using Cons.hyps by (simp add: map_of_rev_zip_None)
    from None Cons.prems have ab: "a = x" "b = v"
      by (auto simp: map_add_def split: if_splits)
    have "\<forall>j'<length (a # g). (a # g) ! j' = x \<longrightarrow> j' \<le> 0"
    proof (intro allI impI)
      fix j' assume "j' < length (a # g)" "(a # g) ! j' = x"
      then show "j' \<le> 0" using nx by (cases j') auto
    qed
    then show ?thesis using ab by - (rule exI [of _ 0], simp)
  next
    case (Some w)
    then have "w = v" using Cons.prems by (simp add: map_add_def)
    with Some Cons.IH obtain j where j: "j < length g" "g ! j = x" "q ! j = v"
      "\<forall>j'<length g. g ! j' = x \<longrightarrow> j' \<le> j" by blast
    have "\<forall>j'<length (a # g). (a # g) ! j' = x \<longrightarrow> j' \<le> Suc j"
    proof (intro allI impI)
      fix j' assume "j' < length (a # g)" "(a # g) ! j' = x"
      then show "j' \<le> Suc j" using j(4) by (cases j') auto
    qed
    then show ?thesis using j by - (rule exI [of _ "Suc j"], simp)
  qed
qed

lemma concat_lengths:
  "list_all2 (\<lambda>g q. length g = length q) G Q \<Longrightarrow> length (concat G) = length (concat Q)"
  by (induction G Q rule: list_all2_induct) simp_all

lemma map_of_rev_zip_concat:
  assumes "list_all2 (\<lambda>g q. length g = length q) G Q"
    and "map_of (rev (zip (concat G) (concat Q))) x = Some v"
  shows "\<exists>i j. i < length G \<and> j < length (G ! i) \<and> G ! i ! j = x \<and> Q ! i ! j = v
           \<and> (\<forall>i' j'. i' < length G \<and> j' < length (G ! i') \<and> G ! i' ! j' = x
                 \<longrightarrow> i' < i \<or> (i' = i \<and> j' \<le> j))"
  using assms
proof (induction G Q rule: list_all2_induct)
  case Nil
  then show ?case by simp
next
  case (Cons g G q Q)
  have split: "map_of (rev (zip (concat (g # G)) (concat (q # Q))))
               = map_of (rev (zip g q)) ++ map_of (rev (zip (concat G) (concat Q)))"
    using Cons.hyps(1) by (simp add: zip_append)
  show ?case
  proof (cases "map_of (rev (zip (concat G) (concat Q))) x")
    case None
    then have nx: "x \<notin> set (concat G)"
      using concat_lengths [OF Cons.hyps(2)] by (simp add: map_of_rev_zip_None)
    from None Cons.prems split have "map_of (rev (zip g q)) x = Some v"
      by (simp add: map_add_def)
    from map_of_rev_zip_row [OF Cons.hyps(1) this]
    obtain j where j: "j < length g" "g ! j = x" "q ! j = v"
      "\<forall>j'<length g. g ! j' = x \<longrightarrow> j' \<le> j" by blast
    have "\<forall>i' j'. i' < length (g # G) \<and> j' < length ((g # G) ! i') \<and> (g # G) ! i' ! j' = x
            \<longrightarrow> i' < 0 \<or> (i' = 0 \<and> j' \<le> j)"
    proof (intro allI impI)
      fix i' j'
      assume h: "i' < length (g # G) \<and> j' < length ((g # G) ! i') \<and> (g # G) ! i' ! j' = x"
      show "i' < 0 \<or> (i' = 0 \<and> j' \<le> j)"
      proof (cases i')
        case 0
        then show ?thesis using h j(4) by simp
      next
        case (Suc k)
        then have "G ! k ! j' \<in> set (concat G)"
          using h by (auto intro!: bexI [of _ "G ! k"])
        then show ?thesis using h Suc nx by simp
      qed
    qed
    then show ?thesis using j by - (rule exI [of _ 0], rule exI [of _ j], auto)
  next
    case (Some w)
    then have "w = v" using Cons.prems split by (simp add: map_add_def)
    with Some Cons.IH obtain i j where ij: "i < length G" "j < length (G ! i)" "G ! i ! j = x"
      "Q ! i ! j = v"
      "\<forall>i' j'. i' < length G \<and> j' < length (G ! i') \<and> G ! i' ! j' = x
           \<longrightarrow> i' < i \<or> (i' = i \<and> j' \<le> j)" by blast
    have "\<forall>i' j'. i' < length (g # G) \<and> j' < length ((g # G) ! i') \<and> (g # G) ! i' ! j' = x
            \<longrightarrow> i' < Suc i \<or> (i' = Suc i \<and> j' \<le> j)"
    proof (intro allI impI)
      fix i' j'
      assume h: "i' < length (g # G) \<and> j' < length ((g # G) ! i') \<and> (g # G) ! i' ! j' = x"
      show "i' < Suc i \<or> (i' = Suc i \<and> j' \<le> j)"
      proof (cases i')
        case 0
        then show ?thesis by simp
      next
        case (Suc k)
        then show ?thesis using h ij(5) [rule_format, of k j'] by auto
      qed
    qed
    then show ?thesis using ij by - (rule exI [of _ "Suc i"], rule exI [of _ j], auto)
  qed
qed

section \<open>Running getPhaseSettings\<close>

lemma phaseGradients_ok:
  assumes "waveLength s \<noteq> 0" and "cos (theta s) \<noteq> 0"
  shows "phaseGradients s =
           Inr (- (2 * pi / waveLength s) * antennaSpacing s
                  * sin (arctan (sin (phi s) * sin (theta s) / cos (theta s))),
                - (2 * pi / waveLength s) * antennaSpacing s
                  * sin (arctan (cos (phi s) * sin (theta s) / cos (theta s))))"
  using assms by (simp add: phaseGradients_def py_div_def Let_def)

lemma phaseGradients_wavelength_zero:
  "waveLength s = 0 \<Longrightarrow> phaseGradients s = Inl ZeroDivisionError"
  by (simp add: phaseGradients_def py_div_def)

lemma phaseGradients_cos_zero:
  "cos (theta s) = 0 \<Longrightarrow> phaseGradients s = Inl ZeroDivisionError"
  by (simp add: phaseGradients_def py_div_def Let_def)

lemma inverted_field_closed_form:
  "map (\<lambda>i. map (\<lambda>j. map (\<lambda>i. map (\<lambda>j. real i * ns + real j * ew) [0..<cols]) [0..<rows] ! i ! j
                         + (if msk ! i ! j then pi else 0)) [0..<cols]) [0..<rows]
   = map (\<lambda>i. map (\<lambda>j. real i * ns + real j * ew + (if msk ! i ! j then pi else 0)) [0..<cols])
       [0..<rows]"
  by (rule map_cong [OF refl], rule map_cong [OF refl]) simp

lemma getPhaseSettings_run:
  assumes "phaseSettings s = []" and "phaseGradients s = Inr (ew, ns)"
    and "1 \<le> length (antennaGrid s ! 0)"
    and "\<forall>i<length (antennaGrid s).
           i < length (antennaInvert s) \<and> length (antennaGrid s ! 0) \<le> length (antennaInvert s ! i)"
  shows "getPhaseSettings s =
     (case convertOffsets (antennaGrid s) (phaseCal s)
             (map (\<lambda>i. map (\<lambda>j. real i * ns + real j * ew
                                  + (if antennaInvert s ! i ! j then pi else 0))
                          [0..<length (antennaGrid s ! 0)]) [0..<length (antennaGrid s)]) of
        Inl e \<Rightarrow>
          (Inl e, s\<lparr>phaseSettingsRaw :=
                     map (\<lambda>i. map (\<lambda>j. real i * ns + real j * ew) [0..<length (antennaGrid s ! 0)])
                       [0..<length (antennaGrid s)]\<rparr>)
      | Inr r \<Rightarrow>
          (Inr r, s\<lparr>phaseSettingsRaw :=
                     map (\<lambda>i. map (\<lambda>j. real i * ns + real j * ew) [0..<length (antennaGrid s ! 0)])
                       [0..<length (antennaGrid s)],
                   phaseSettings := r\<rparr>))"
proof -
  let ?F = "map (\<lambda>i. map (\<lambda>j. real i * ns + real j * ew) [0..<length (antennaGrid s ! 0)])
              [0..<length (antennaGrid s)]"
  have raw: "rawOffsets (antennaGrid s) ew ns = Inr ?F"
    by (rule rawOffsets_ramp [OF assms(3)])
  have inv: "invertOffsets (antennaInvert s) (antennaGrid s) ?F =
      Inr (map (\<lambda>i. map (\<lambda>j. ?F ! i ! j + (if antennaInvert s ! i ! j then pi else 0))
                         [0..<length (antennaGrid s ! 0)]) [0..<length (antennaGrid s)])"
    by (rule invertOffsets_field) (use assms(4) in simp_all)
  show ?thesis
    unfolding getPhaseSettings_def
    using assms(1,2) raw inv
    by (simp add: inverted_field_closed_form split: sum.splits)
qed

lemma convertOffsets_calibrate:
  "convertOffsets grid cal Q =
     calibrateAll (map (\<lambda>(k, v). (k, projr (radiansToAwmf0108 v)))
                     (dict_from [] (zip (concat grid) (concat Q)))) cal [NE, SE, SW, NW]"
  by (simp only: convertOffsets_def Let_def quantizeItems_total bindE_simps)

lemma calibrateAll_ok:
  assumes "\<forall>x\<in>set xs. \<exists>v c. dict_getitem so x = Inr v \<and> applyCalibration x v cal = Inr c"
  shows "calibrateAll so cal xs =
           Inr (map (\<lambda>x. projr (applyCalibration x (projr (dict_getitem so x)) cal)) xs)"
  using assms
proof (induction xs)
  case Nil
  then show ?case by simp
next
  case (Cons x xs)
  then obtain v c where "dict_getitem so x = Inr v" "applyCalibration x v cal = Inr c" by auto
  moreover have "calibrateAll so cal xs =
           Inr (map (\<lambda>x. projr (applyCalibration x (projr (dict_getitem so x)) cal)) xs)"
    using Cons by simp
  ultimately show ?case by simp
qed

lemma calibrateAll_Inr_lookup:
  assumes "calibrateAll so cal xs = Inr r"
  shows "length r = length xs \<and>
         (\<forall>n<length xs. \<exists>v. dict_getitem so (xs ! n) = Inr v
                              \<and> applyCalibration (xs ! n) v cal = Inr (r ! n))"
  using assms
proof (induction xs arbitrary: r)
  case Nil
  then show ?case by simp
next
  case (Cons x xs)
  from Cons.prems obtain v where v: "dict_getitem so x = Inr v"
    by (cases "dict_getitem so x") auto
  from Cons.prems v obtain c where c: "applyCalibration x v cal = Inr c"
    by (cases "applyCalibration x v cal") auto
  from Cons.prems v c obtain vs where vs: "calibrateAll so cal xs = Inr vs"
    by (cases "calibrateAll so cal xs") auto
  from Cons.prems v c vs have r: "r = c # vs" by simp
  from Cons.IH [OF vs] have ih: "length vs = length xs"
    "\<forall>n<length xs. \<exists>v. dict_getitem so (xs ! n) = Inr v
                              \<and> applyCalibration (xs ! n) v cal = Inr (vs ! n)" by simp_all
  have "\<exists>w. dict_getitem so ((x # xs) ! n) = Inr w
             \<and> applyCalibration ((x # xs) ! n) w cal = Inr (r ! n)"
    if "n < length (x # xs)" for n
    using that v c ih(2) unfolding r by (cases n) auto
  then show ?case using ih(1) r by simp
qed

lemma applyCalibration_range:
  assumes "cal = None \<or> cal = Some [] \<or> (\<exists>d t. cal = Some d \<and> map_of d q = Some t \<and> t \<noteq> [])"
    and "0 \<le> v" and "v \<le> 31"
  shows "\<exists>c. applyCalibration q v cal = Inr c \<and> 0 \<le> c \<and> c \<le> 31"
proof -
  consider "cal = None \<or> cal = Some []"
    | d t where "cal = Some d" "d \<noteq> []" "map_of d q = Some t" "t \<noteq> []"
    using assms(1) by auto
  then show ?thesis
  proof cases
    case 1
    then show ?thesis using assms(2,3) by (auto simp: applyCalibration_def truthy_def)
  next
    case 2
    from applyCalibration_table [OF 2(2,3,4), of v]
    obtain off where "applyCalibration q v (Some d) = Inr ((v - off) mod 32)" by blast
    moreover have "0 \<le> (v - off) mod 32" "(v - off) mod 32 \<le> 31" by simp_all
    ultimately show ?thesis using 2(1) by simp
  qed
qed

section \<open>Label lookup\<close>

lemma invertOffsets_empty_grid: "invertOffsets msk [] offs = Inr offs"
  by (simp add: invertOffsets_def)

lemma getPhaseSettings_run_empty_grid:
  assumes "phaseSettings s = []" and "phaseGradients s = Inr (ew, ns)" and "antennaGrid s = []"
  shows "getPhaseSettings s =
     (case convertOffsets (antennaGrid s) (phaseCal s) [] of
        Inl e \<Rightarrow> (Inl e, s\<lparr>phaseSettingsRaw := []\<rparr>)
      | Inr r \<Rightarrow> (Inr r, s\<lparr>phaseSettingsRaw := [], phaseSettings := r\<rparr>))"
  unfolding getPhaseSettings_def using assms
  by (simp add: rawOffsets_empty_grid invertOffsets_empty_grid split: sum.splits)

lemma field_shape:
  assumes "\<forall>row\<in>set grid. length row = cols"
  shows "list_all2 (\<lambda>g q. length g = length q) grid
           (map (\<lambda>i. map (\<lambda>j. f i j) [0..<cols]) [0..<length grid])"
  using assms by (simp add: list_all2_conv_all_nth)

lemma lookup_position:
  assumes rect: "\<forall>row\<in>set grid. length row = cols"
    and x: "x \<in> set (concat grid)"
  shows "\<exists>i j. i < length grid \<and> j < cols \<and> grid ! i ! j = x
           \<and> (\<forall>i' j'. i' < length grid \<and> j' < cols \<and> grid ! i' ! j' = x
                 \<longrightarrow> i' < i \<or> (i' = i \<and> j' \<le> j))
           \<and> map_of (rev (zip (concat grid)
                  (concat (map (\<lambda>i. map (\<lambda>j. f i j) [0..<cols]) [0..<length grid])))) x
               = Some (f i j)"
proof -
  let ?Q = "map (\<lambda>i. map (\<lambda>j. f i j) [0..<cols]) [0..<length grid]"
  have sh: "list_all2 (\<lambda>g q. length g = length q) grid ?Q" by (rule field_shape [OF rect])
  have "map_of (rev (zip (concat grid) (concat ?Q))) x \<noteq> None"
    using x concat_lengths [OF sh] by (simp add: map_of_rev_zip_None)
  then obtain v where v: "map_of (rev (zip (concat grid) (concat ?Q))) x = Some v" by blast
  from map_of_rev_zip_concat [OF sh v]
  obtain i j where ij: "i < length grid" "j < length (grid ! i)" "grid ! i ! j = x" "?Q ! i ! j = v"
    "\<forall>i' j'. i' < length grid \<and> j' < length (grid ! i') \<and> grid ! i' ! j' = x
       \<longrightarrow> i' < i \<or> (i' = i \<and> j' \<le> j)" by blast
  have len: "length (grid ! k) = cols" if "k < length grid" for k
    using rect that by simp
  have j: "j < cols" using ij(1,2) len by simp
  have val: "v = f i j" using ij(1,4) j by simp
  have last: "\<forall>i' j'. i' < length grid \<and> j' < cols \<and> grid ! i' ! j' = x
                 \<longrightarrow> i' < i \<or> (i' = i \<and> j' \<le> j)"
    using ij(5) len by auto
  show ?thesis using ij(1,3) j last v val by blast
qed

lemma s_offsets_absent:
  "x \<notin> set ks \<Longrightarrow>
     dict_getitem (map (\<lambda>(k, v). (k, projr (radiansToAwmf0108 v))) (dict_from [] (zip ks vs))) x
       = Inl KeyError"
  by (simp add: s_offsets_getitem map_of_rev_zip_absent)

lemma s_offsets_Inr_present:
  assumes "dict_getitem (map (\<lambda>(k, v). (k, projr (radiansToAwmf0108 v)))
             (dict_from [] (zip ks vs))) x = Inr v"
  shows "x \<in> set ks"
  using assms s_offsets_absent [of x ks vs] by (cases "x \<in> set ks") auto

lemma convertOffsets_Inr_labels:
  assumes "convertOffsets grid cal Q = Inr r"
  shows "{NE, SE, SW, NW} \<subseteq> set (concat grid)"
proof -
  let ?so = "map (\<lambda>(k, v). (k, projr (radiansToAwmf0108 v)))
               (dict_from [] (zip (concat grid) (concat Q)))"
  from assms have "calibrateAll ?so cal [NE, SE, SW, NW] = Inr r"
    by (simp only: convertOffsets_calibrate)
  from calibrateAll_Inr_lookup [OF this]
  have "\<forall>n<length [NE, SE, SW, NW]. \<exists>v. dict_getitem ?so ([NE, SE, SW, NW] ! n) = Inr v"
    by blast
  then have "\<forall>x\<in>set [NE, SE, SW, NW]. \<exists>v. dict_getitem ?so x = Inr v"
    by (metis in_set_conv_nth)
  then have all: "\<forall>x\<in>set [NE, SE, SW, NW]. \<exists>v. dict_getitem ?so x = Inr v" .
  have "x \<in> set (concat grid)" if "x \<in> set [NE, SE, SW, NW]" for x
  proof -
    from all that obtain v where "dict_getitem ?so x = Inr v" by blast
    then show ?thesis by (rule s_offsets_Inr_present)
  qed
  then show ?thesis by simp
qed

lemma getPhaseSettings_Inr_convert:
  assumes "phaseSettings s = []" and "getPhaseSettings s = (Inr r, s')"
  shows "\<exists>Q. convertOffsets (antennaGrid s) (phaseCal s) Q = Inr r"
  using assms unfolding getPhaseSettings_def
  by (auto simp: Let_def bindE_def split: sum.splits)

lemma getPhaseSettings_Inr_labels:
  assumes "phaseSettings s = []" and "getPhaseSettings s = (Inr r, s')"
  shows "{NE, SE, SW, NW} \<subseteq> set (concat (antennaGrid s))"
  using getPhaseSettings_Inr_convert [OF assms] convertOffsets_Inr_labels by blast

section \<open>A valid run\<close>

lemma getPhaseSettings_valid:
  assumes cache: "phaseSettings s = []"
    and grad: "phaseGradients s = Inr (ew, ns)"
    and shape: "list_all2 (\<lambda>g m. length g = length m \<and> length g = length (antennaGrid s ! 0))
                  (antennaGrid s) (antennaInvert s)"
    and labels: "{NE, SE, SW, NW} \<subseteq> set (concat (antennaGrid s))"
    and cal: "phaseCal s = None \<or> phaseCal s = Some [] \<or>
              (\<exists>d. phaseCal s = Some d \<and> (\<forall>q\<in>{NE, SE, SW, NW}. \<exists>t. map_of d q = Some t \<and> t \<noteq> []))"
  shows "\<exists>r. getPhaseSettings s =
           (Inr r, s\<lparr>phaseSettingsRaw :=
                       map (\<lambda>i. map (\<lambda>j. real i * ns + real j * ew) [0..<length (antennaGrid s ! 0)])
                         [0..<length (antennaGrid s)],
                     phaseSettings := r\<rparr>)
         \<and> length r = length [NE, SE, SW, NW]
         \<and> (\<forall>n<length [NE, SE, SW, NW]. 0 \<le> r ! n \<and> r ! n \<le> 31 \<and>
              (\<exists>i j v. i < length (antennaGrid s) \<and> j < length (antennaGrid s ! 0)
                 \<and> antennaGrid s ! i ! j = [NE, SE, SW, NW] ! n
                 \<and> (\<forall>i' j'. i' < length (antennaGrid s) \<and> j' < length (antennaGrid s ! 0)
                        \<and> antennaGrid s ! i' ! j' = [NE, SE, SW, NW] ! n
                      \<longrightarrow> i' < i \<or> (i' = i \<and> j' \<le> j))
                 \<and> radiansToAwmf0108 (real i * ns + real j * ew
                       + (if antennaInvert s ! i ! j then pi else 0)) = Inr v
                 \<and> applyCalibration ([NE, SE, SW, NW] ! n) v (phaseCal s) = Inr (r ! n)))"
proof -
  let ?grid = "antennaGrid s"
  let ?cols = "length (?grid ! 0)"
  let ?labs = "[NE, SE, SW, NW]"
  let ?f = "\<lambda>i j. real i * ns + real j * ew + (if antennaInvert s ! i ! j then pi else 0)"
  let ?Q = "map (\<lambda>i. map (\<lambda>j. ?f i j) [0..<?cols]) [0..<length ?grid]"
  let ?so = "map (\<lambda>(k, v). (k, projr (radiansToAwmf0108 v)))
               (dict_from [] (zip (concat ?grid) (concat ?Q)))"
  have nth: "\<forall>i<length ?grid. length (?grid ! i) = length (antennaInvert s ! i)
               \<and> length (?grid ! i) = ?cols"
    and leq: "length ?grid = length (antennaInvert s)"
    using shape by (auto simp: list_all2_conv_all_nth)
  have rect: "\<forall>row\<in>set ?grid. length row = ?cols"
    using nth by (auto simp: in_set_conv_nth)
  have "NE \<in> set (concat ?grid)" using labels by simp
  then obtain row where "row \<in> set ?grid" "NE \<in> set row" by auto
  then have "row \<noteq> []" "length row = ?cols" using rect by auto
  then have cols: "1 \<le> ?cols" by (cases row) auto
  have msk: "\<forall>i<length ?grid. i < length (antennaInvert s) \<and> ?cols \<le> length (antennaInvert s ! i)"
    using nth leq by (metis order_refl)
  note run = getPhaseSettings_run [OF cache grad cols msk]
  have each: "\<exists>i j. i < length ?grid \<and> j < ?cols \<and> ?grid ! i ! j = x
               \<and> (\<forall>i' j'. i' < length ?grid \<and> j' < ?cols \<and> ?grid ! i' ! j' = x
                      \<longrightarrow> i' < i \<or> (i' = i \<and> j' \<le> j))
               \<and> dict_getitem ?so x = Inr (projr (radiansToAwmf0108 (?f i j)))"
    if "x \<in> set ?labs" for x
  proof -
    have "x \<in> set (concat ?grid)" using that labels by auto
    from lookup_position [OF rect this, of ?f]
    obtain i j where ij: "i < length ?grid" "j < ?cols" "?grid ! i ! j = x"
      "\<forall>i' j'. i' < length ?grid \<and> j' < ?cols \<and> ?grid ! i' ! j' = x
           \<longrightarrow> i' < i \<or> (i' = i \<and> j' \<le> j)"
      "map_of (rev (zip (concat ?grid) (concat ?Q))) x = Some (?f i j)" by blast
    have "dict_getitem ?so x = Inr (projr (radiansToAwmf0108 (?f i j)))"
      unfolding s_offsets_getitem ij(5) by simp
    with ij(1-4) show ?thesis by blast
  qed
  have calx: "phaseCal s = None \<or> phaseCal s = Some [] \<or>
              (\<exists>d t. phaseCal s = Some d \<and> map_of d x = Some t \<and> t \<noteq> [])"
    if "x \<in> set ?labs" for x
    using cal that by auto
  have ok: "\<exists>v c. dict_getitem ?so x = Inr v \<and> 0 \<le> v \<and> v \<le> 31
              \<and> applyCalibration x v (phaseCal s) = Inr c \<and> 0 \<le> c \<and> c \<le> 31"
    if "x \<in> set ?labs" for x
  proof -
    from each [OF that] obtain i j where
      g: "dict_getitem ?so x = Inr (projr (radiansToAwmf0108 (?f i j)))" by blast
    from applyCalibration_range [OF calx [OF that] radiansToAwmf0108_projr_range]
    obtain c where "applyCalibration x (projr (radiansToAwmf0108 (?f i j))) (phaseCal s) = Inr c"
      "0 \<le> c" "c \<le> 31" by blast
    with g radiansToAwmf0108_projr_range show ?thesis by blast
  qed
  let ?r = "map (\<lambda>x. projr (applyCalibration x (projr (dict_getitem ?so x)) (phaseCal s))) ?labs"
  have "\<forall>x\<in>set ?labs. \<exists>v c. dict_getitem ?so x = Inr v \<and> applyCalibration x v (phaseCal s) = Inr c"
  proof
    fix x assume "x \<in> set ?labs"
    from ok [OF this] show "\<exists>v c. dict_getitem ?so x = Inr v \<and> applyCalibration x v (phaseCal s) = Inr c"
      by blast
  qed
  then have "calibrateAll ?so (phaseCal s) ?labs = Inr ?r"
    by (rule calibrateAll_ok)
  then have conv: "convertOffsets ?grid (phaseCal s) ?Q = Inr ?r"
    by (simp only: convertOffsets_calibrate)
  have res: "getPhaseSettings s =
           (Inr ?r, s\<lparr>phaseSettingsRaw :=
                       map (\<lambda>i. map (\<lambda>j. real i * ns + real j * ew) [0..<?cols]) [0..<length ?grid],
                     phaseSettings := ?r\<rparr>)"
    unfolding run conv by simp
  have pos: "0 \<le> ?r ! n \<and> ?r ! n \<le> 31 \<and>
              (\<exists>i j v. i < length ?grid \<and> j < ?cols \<and> ?grid ! i ! j = ?labs ! n
                 \<and> (\<forall>i' j'. i' < length ?grid \<and> j' < ?cols \<and> ?grid ! i' ! j' = ?labs ! n
                      \<longrightarrow> i' < i \<or> (i' = i \<and> j' \<le> j))
                 \<and> radiansToAwmf0108 (?f i j) = Inr v
                 \<and> applyCalibration (?labs ! n) v (phaseCal s) = Inr (?r ! n))"
    if n: "n < length ?labs" for n
  proof -
    let ?x = "?labs ! n"
    have x: "?x \<in> set ?labs" using n by (rule nth_mem)
    from each [OF x] obtain i j where ij: "i < length ?grid" "j < ?cols" "?grid ! i ! j = ?x"
      "\<forall>i' j'. i' < length ?grid \<and> j' < ?cols \<and> ?grid ! i' ! j' = ?x
           \<longrightarrow> i' < i \<or> (i' = i \<and> j' \<le> j)"
      "dict_getitem ?so ?x = Inr (projr (radiansToAwmf0108 (?f i j)))" by blast
    from ok [OF x] ij(5) obtain c where
      c: "applyCalibration ?x (projr (radiansToAwmf0108 (?f i j))) (phaseCal s) = Inr c"
      "0 \<le> c" "c \<le> 31" by auto
    have rn: "?r ! n = c" using n ij(5) c(1) by (simp only: nth_map) simp
    have q: "radiansToAwmf0108 (?f i j) = Inr (projr (radiansToAwmf0108 (?f i j)))"
      by (rule radiansToAwmf0108_total)
    have "i < length ?grid \<and> j < ?cols \<and> ?grid ! i ! j = ?labs ! n
                 \<and> (\<forall>i' j'. i' < length ?grid \<and> j' < ?cols \<and> ?grid ! i' ! j' = ?labs ! n
                      \<longrightarrow> i' < i \<or> (i' = i \<and> j' \<le> j))
                 \<and> radiansToAwmf0108 (?f i j) = Inr (projr (radiansToAwmf0108 (?f i j)))
                 \<and> applyCalibration (?labs ! n) (projr (radiansToAwmf0108 (?f i j))) (phaseCal s)
                     = Inr (?r ! n)"
      using ij(1-4) q c(1) unfolding rn by simp
    then have "\<exists>i j v. i < length ?grid \<and> j < ?cols \<and> ?grid ! i ! j = ?labs ! n
                 \<and> (\<forall>i' j'. i' < length ?grid \<and> j' < ?cols \<and> ?grid ! i' ! j' = ?labs ! n
                      \<longrightarrow> i' < i \<or> (i' = i \<and> j' \<le> j))
                 \<and> radiansToAwmf0108 (?f i j) = Inr v
                 \<and> applyCalibration (?labs ! n) v (phaseCal s) = Inr (?r ! n)"
      by (intro exI)
    then show ?thesis unfolding rn using c(2,3) by simp
  qed
  have len: "length ?r = length ?labs" by simp
  show ?thesis
    by (rule exI [of _ ?r], intro conjI allI impI res len) (use pos in simp_all)
qed

section \<open>Canonical order of the phase settings\<close>



section \<open>The raw phase field\<close>

lemma getRawPhaseSettings_cached:
  "phaseSettingsRaw s \<noteq> [] \<Longrightarrow> getRawPhaseSettings s = (Inr (phaseSettingsRaw s), s)"
  by (simp add: getRawPhaseSettings_def)

lemma ramp_field_props:
  fixes ew ns :: real
  defines "F \<equiv> \<lambda>rows cols. map (\<lambda>i. map (\<lambda>j. real i * ns + real j * ew) [0..<cols]) [0..<rows]"
  shows "length (F rows cols) = rows"
    and "i < rows \<Longrightarrow> length (F rows cols ! i) = cols"
    and "0 < rows \<Longrightarrow> 0 < cols \<Longrightarrow> F rows cols ! 0 ! 0 = 0"
    and "1 \<le> i \<Longrightarrow> i < rows \<Longrightarrow> 0 < cols \<Longrightarrow> F rows cols ! i ! 0 = F rows cols ! (i - 1) ! 0 + ns"
    and "i < rows \<Longrightarrow> 1 \<le> j \<Longrightarrow> j < cols \<Longrightarrow> F rows cols ! i ! j = F rows cols ! i ! (j - 1) + ew"
  by (simp_all add: F_def algebra_simps of_nat_diff)

text \<open>
  Claim C6. On a call that computes (empty cache) with gradients \<open>(ew, ns)\<close>, for a grid
  with at least one row and one column and an inversion mask that covers it, the raw field
  \<open>F\<close> built by \<open>getPhaseSettings\<close> has the dimensions of the grid and satisfies
  \<open>F[0][0] = 0\<close>, \<open>F[i][0] = F[i-1][0] + ns\<close> for \<open>i \<ge> 1\<close> and \<open>F[i][j] = F[i][j-1] + ew\<close>
  for \<open>j \<ge> 1\<close>; it is stored in \<open>phaseSettingsRaw\<close> and returned by the next
  \<open>getRawPhaseSettings\<close>; the field \<open>Q\<close> that is converted to settings is \<open>F\<close> plus \<open>\<pi>\<close> at
  exactly the positions where the mask is true.
\<close>

theorem raw_phase_field_retained:
  assumes "phaseSettings s = []" and "phaseGradients s = Inr (ew, ns)"
    and "antennaGrid s \<noteq> []" and "antennaGrid s ! 0 \<noteq> []"
    and "\<forall>i<length (antennaGrid s).
           i < length (antennaInvert s) \<and> length (antennaGrid s ! 0) \<le> length (antennaInvert s ! i)"
  shows "\<exists>F Q. rawOffsets (antennaGrid s) ew ns = Inr F
     \<and> length F = length (antennaGrid s)
     \<and> (\<forall>i<length (antennaGrid s). length (F ! i) = length (antennaGrid s ! 0))
     \<and> F ! 0 ! 0 = 0
     \<and> (\<forall>i. 1 \<le> i \<and> i < length (antennaGrid s) \<longrightarrow> F ! i ! 0 = F ! (i - 1) ! 0 + ns)
     \<and> (\<forall>i j. i < length (antennaGrid s) \<and> 1 \<le> j \<and> j < length (antennaGrid s ! 0)
            \<longrightarrow> F ! i ! j = F ! i ! (j - 1) + ew)
     \<and> phaseSettingsRaw (snd (getPhaseSettings s)) = F
     \<and> getRawPhaseSettings (snd (getPhaseSettings s)) = (Inr F, snd (getPhaseSettings s))
     \<and> invertOffsets (antennaInvert s) (antennaGrid s) F = Inr Q
     \<and> length Q = length (antennaGrid s)
     \<and> (\<forall>i<length (antennaGrid s). length (Q ! i) = length (antennaGrid s ! 0))
     \<and> (\<forall>i j. i < length (antennaGrid s) \<and> j < length (antennaGrid s ! 0)
            \<longrightarrow> Q ! i ! j = F ! i ! j + (if antennaInvert s ! i ! j then pi else 0))
     \<and> fst (getPhaseSettings s) = convertOffsets (antennaGrid s) (phaseCal s) Q"
proof -
  let ?rows = "length (antennaGrid s)"
  let ?cols = "length (antennaGrid s ! 0)"
  let ?F = "map (\<lambda>i. map (\<lambda>j. real i * ns + real j * ew) [0..<?cols]) [0..<?rows]"
  let ?Q = "map (\<lambda>i. map (\<lambda>j. real i * ns + real j * ew
                  + (if antennaInvert s ! i ! j then pi else 0)) [0..<?cols]) [0..<?rows]"
  have rows: "0 < ?rows" using assms(3) by simp
  have cols: "0 < ?cols" "1 \<le> ?cols" using assms(4) by (simp_all add: Suc_le_eq)
  have a: "rawOffsets (antennaGrid s) ew ns = Inr ?F" by (rule rawOffsets_ramp [OF cols(2)])
  have b: "length ?F = ?rows" by simp
  have c: "\<forall>i<?rows. length (?F ! i) = ?cols" by simp
  have d: "?F ! 0 ! 0 = 0" using ramp_field_props(3) [OF rows cols(1)] .
  have e: "\<forall>i. 1 \<le> i \<and> i < ?rows \<longrightarrow> ?F ! i ! 0 = ?F ! (i - 1) ! 0 + ns"
    using ramp_field_props(4) [OF _ _ cols(1)] by blast
  have f: "\<forall>i j. i < ?rows \<and> 1 \<le> j \<and> j < ?cols \<longrightarrow> ?F ! i ! j = ?F ! i ! (j - 1) + ew"
    using ramp_field_props(5) by blast
  note run = getPhaseSettings_run [OF assms(1,2) cols(2) assms(5)]
  have g: "phaseSettingsRaw (snd (getPhaseSettings s)) = ?F"
    unfolding run by (simp split: sum.splits)
  have "?F \<noteq> []" using rows by simp
  then have h: "getRawPhaseSettings (snd (getPhaseSettings s)) = (Inr ?F, snd (getPhaseSettings s))"
    using getRawPhaseSettings_cached [of "snd (getPhaseSettings s)"] g by simp
  have "invertOffsets (antennaInvert s) (antennaGrid s) ?F =
      Inr (map (\<lambda>i. map (\<lambda>j. ?F ! i ! j + (if antennaInvert s ! i ! j then pi else 0))
                         [0..<?cols]) [0..<?rows])"
    by (rule invertOffsets_field) (use assms(5) in simp_all)
  then have i: "invertOffsets (antennaInvert s) (antennaGrid s) ?F = Inr ?Q"
    by (simp only: inverted_field_closed_form)
  have j: "length ?Q = ?rows" by simp
  have k: "\<forall>i<?rows. length (?Q ! i) = ?cols" by simp
  have l: "\<forall>i j. i < ?rows \<and> j < ?cols
            \<longrightarrow> ?Q ! i ! j = ?F ! i ! j + (if antennaInvert s ! i ! j then pi else 0)"
    by simp
  have m: "fst (getPhaseSettings s) = convertOffsets (antennaGrid s) (phaseCal s) ?Q"
    unfolding run by (simp split: sum.splits)
  show ?thesis
    by (rule exI [of _ ?F], rule exI [of _ ?Q]) (intro conjI a b c d e f g h i j k l m)
qed

section \<open>A steering request of 30 and 90 degrees\<close>

lemma radians_30: "radians 30 = pi / 6" and radians_90: "radians 90 = pi / 2"
  and radians_0: "radians 0 = 0"
  by (simp_all add: radians_def)

lemma arctan_inv_sqrt3: "arctan (1 / sqrt 3) = pi / 6"
proof (rule arctan_unique)
  show "- (pi / 2) < pi / 6" using pi_gt_zero by linarith
  show "pi / 6 < pi / 2" using pi_gt_zero by linarith
  show "tan (pi / 6) = 1 / sqrt 3" by (rule tan_30)
qed

lemma phaseGradients_30_90:
  assumes "theta s = radians 30" and "phi s = radians 90" and "waveLength s \<noteq> 0"
  shows "phaseGradients s = Inr (- (2 * pi / waveLength s) * antennaSpacing s * (1 / 2), 0)"
proof -
  have t: "theta s = pi / 6" and p: "phi s = pi / 2"
    using assms(1,2) by (simp_all only: radians_30 radians_90)
  have c: "cos (theta s) \<noteq> 0" unfolding t by (simp add: cos_30)
  have ew: "sin (phi s) * sin (theta s) / cos (theta s) = 1 / sqrt 3"
    unfolding t p by (simp add: sin_30 cos_30)
  have ns: "cos (phi s) * sin (theta s) / cos (theta s) = 0"
    unfolding p by simp
  show ?thesis
    unfolding phaseGradients_ok [OF assms(3) c] ew ns arctan_inv_sqrt3
    by (simp add: sin_30)
qed

theorem raw_phase_field_retained_witness:
  "phaseSettings (init 30 90 0.0108 None 1) = []
   \<and> phaseGradients (init 30 90 0.0108 None 1) = Inr (- (pi / 2), 0)
   \<and> antennaGrid (init 30 90 0.0108 None 1) \<noteq> []
   \<and> antennaGrid (init 30 90 0.0108 None 1) ! 0 \<noteq> []
   \<and> (\<exists>F Q. rawOffsets (antennaGrid (init 30 90 0.0108 None 1)) (- (pi / 2)) 0 = Inr F
         \<and> F ! 0 ! 0 = 0 \<and> F ! 0 ! 1 = F ! 0 ! 0 + - (pi / 2)
         \<and> getRawPhaseSettings (snd (getPhaseSettings (init 30 90 0.0108 None 1)))
             = (Inr F, snd (getPhaseSettings (init 30 90 0.0108 None 1)))
         \<and> Q ! 0 ! 0 = F ! 0 ! 0 + pi \<and> Q ! 0 ! 1 = F ! 0 ! 1)"
proof -
  let ?s = "init 30 90 0.0108 None 1"
  have h1: "phaseSettings ?s = []" by (simp add: init_def)
  have "phaseGradients ?s = Inr (- (2 * pi / waveLength ?s) * antennaSpacing ?s * (1 / 2), 0)"
    by (rule phaseGradients_30_90) (simp_all add: init_def)
  then have h2: "phaseGradients ?s = Inr (- (pi / 2), 0)" by (simp add: init_def)
  have h3: "antennaGrid ?s \<noteq> []" and h4: "antennaGrid ?s ! 0 \<noteq> []" by (simp_all add: init_def)
  have h5: "\<forall>i<length (antennaGrid ?s).
           i < length (antennaInvert ?s) \<and> length (antennaGrid ?s ! 0) \<le> length (antennaInvert ?s ! i)"
    by (simp add: init_def)
  have g: "antennaGrid ?s = [[NE, NW, SE, SW]]" "antennaInvert ?s = [[True, False, True, False]]"
    by (simp_all add: init_def)
  from raw_phase_field_retained [OF h1 h2 h3 h4 h5]
  obtain F Q where fq: "rawOffsets (antennaGrid ?s) (- (pi / 2)) 0 = Inr F"
    "F ! 0 ! 0 = 0"
    "\<forall>i j. i < length (antennaGrid ?s) \<and> 1 \<le> j \<and> j < length (antennaGrid ?s ! 0)
            \<longrightarrow> F ! i ! j = F ! i ! (j - 1) + - (pi / 2)"
    "getRawPhaseSettings (snd (getPhaseSettings ?s)) = (Inr F, snd (getPhaseSettings ?s))"
    "\<forall>i j. i < length (antennaGrid ?s) \<and> j < length (antennaGrid ?s ! 0)
            \<longrightarrow> Q ! i ! j = F ! i ! j + (if antennaInvert ?s ! i ! j then pi else 0)"
    by blast
  have "F ! 0 ! 1 = F ! 0 ! 0 + - (pi / 2)" using fq(3) [rule_format, of 0 1] g by simp
  moreover have "Q ! 0 ! 0 = F ! 0 ! 0 + pi" using fq(5) [rule_format, of 0 0] g by simp
  moreover have "Q ! 0 ! 1 = F ! 0 ! 1" using fq(5) [rule_format, of 0 1] g by simp
  ultimately show ?thesis using h1 h2 h3 h4 fq(1,2,4) by blast
qed

section \<open>Grids that lack a label\<close>

lemma calibrateAll_missing:
  assumes "\<forall>x\<in>set xs. dict_getitem so x = Inl KeyError
             \<or> (\<exists>v c. dict_getitem so x = Inr v \<and> applyCalibration x v cal = Inr c)"
    and "\<exists>x\<in>set xs. dict_getitem so x = Inl KeyError"
  shows "calibrateAll so cal xs = Inl KeyError"
  using assms
proof (induction xs)
  case Nil
  then show ?case by simp
next
  case (Cons x xs)
  show ?case
  proof (cases "dict_getitem so x = Inl KeyError")
    case True
    then show ?thesis by simp
  next
    case False
    with Cons.prems obtain v c where vc: "dict_getitem so x = Inr v"
      "applyCalibration x v cal = Inr c" by auto
    from False Cons.prems have "\<exists>y\<in>set xs. dict_getitem so y = Inl KeyError" by auto
    with Cons have "calibrateAll so cal xs = Inl KeyError" by simp
    with vc show ?thesis by simp
  qed
qed

lemma s_offsets_present:
  assumes rect: "\<forall>row\<in>set grid. length row = cols"
    and x: "x \<in> set (concat grid)"
    and cal: "cal = None \<or> cal = Some [] \<or> (\<exists>d t. cal = Some d \<and> map_of d x = Some t \<and> t \<noteq> [])"
  shows "\<exists>v c. dict_getitem (map (\<lambda>(k, v). (k, projr (radiansToAwmf0108 v)))
                  (dict_from [] (zip (concat grid)
                     (concat (map (\<lambda>i. map (\<lambda>j. f i j) [0..<cols]) [0..<length grid]))))) x = Inr v
               \<and> applyCalibration x v cal = Inr c"
proof -
  from lookup_position [OF rect x, of f] obtain i j where
    "map_of (rev (zip (concat grid)
        (concat (map (\<lambda>i. map (\<lambda>j. f i j) [0..<cols]) [0..<length grid])))) x = Some (f i j)"
    by blast
  then have g: "dict_getitem (map (\<lambda>(k, v). (k, projr (radiansToAwmf0108 v)))
                  (dict_from [] (zip (concat grid)
                     (concat (map (\<lambda>i. map (\<lambda>j. f i j) [0..<cols]) [0..<length grid]))))) x
                = Inr (projr (radiansToAwmf0108 (f i j)))"
    unfolding s_offsets_getitem by simp
  from applyCalibration_range [OF cal radiansToAwmf0108_projr_range]
  obtain c where "applyCalibration x (projr (radiansToAwmf0108 (f i j))) cal = Inr c" by blast
  with g show ?thesis by blast
qed

lemma convertOffsets_missing:
  assumes rect: "\<forall>row\<in>set grid. length row = cols"
    and cal: "cal = None \<or> cal = Some [] \<or>
              (\<exists>d. cal = Some d \<and> (\<forall>q\<in>{NE, SE, SW, NW}. \<exists>t. map_of d q = Some t \<and> t \<noteq> []))"
    and miss: "\<not> {NE, SE, SW, NW} \<subseteq> set (concat grid)"
  shows "convertOffsets grid cal (map (\<lambda>i. map (\<lambda>j. f i j) [0..<cols]) [0..<length grid])
           = Inl KeyError"
proof -
  let ?so = "map (\<lambda>(k, v). (k, projr (radiansToAwmf0108 v)))
               (dict_from [] (zip (concat grid)
                  (concat (map (\<lambda>i. map (\<lambda>j. f i j) [0..<cols]) [0..<length grid]))))"
  have a: "dict_getitem ?so x = Inl KeyError
             \<or> (\<exists>v c. dict_getitem ?so x = Inr v \<and> applyCalibration x v cal = Inr c)"
    if "x \<in> set [NE, SE, SW, NW]" for x
  proof (cases "x \<in> set (concat grid)")
    case True
    have "cal = None \<or> cal = Some [] \<or> (\<exists>d t. cal = Some d \<and> map_of d x = Some t \<and> t \<noteq> [])"
      using cal that by auto
    from s_offsets_present [OF rect True this, of f] show ?thesis by blast
  next
    case False
    then show ?thesis by (simp add: s_offsets_absent)
  qed
  from miss obtain y where "y \<in> set [NE, SE, SW, NW]" "y \<notin> set (concat grid)" by auto
  then have b: "\<exists>x\<in>set [NE, SE, SW, NW]. dict_getitem ?so x = Inl KeyError"
    using s_offsets_absent [of y "concat grid"] by blast
  have "calibrateAll ?so cal [NE, SE, SW, NW] = Inl KeyError"
    by (rule calibrateAll_missing) (use a b in blast)+
  then show ?thesis by (simp only: convertOffsets_calibrate)
qed

lemma getPhaseSettings_missing_label:
  assumes cache: "phaseSettings s = []"
    and grad: "phaseGradients s = Inr (ew, ns)"
    and shape: "list_all2 (\<lambda>g m. length g = length m \<and> length g = length (antennaGrid s ! 0))
                  (antennaGrid s) (antennaInvert s)"
    and cal: "phaseCal s = None \<or> phaseCal s = Some [] \<or>
              (\<exists>d. phaseCal s = Some d \<and> (\<forall>q\<in>{NE, SE, SW, NW}. \<exists>t. map_of d q = Some t \<and> t \<noteq> []))"
    and miss: "\<not> {NE, SE, SW, NW} \<subseteq> set (concat (antennaGrid s))"
  shows "fst (getPhaseSettings s) = Inl KeyError \<or> fst (getPhaseSettings s) = Inl IndexError"
proof -
  let ?grid = "antennaGrid s"
  let ?cols = "length (?grid ! 0)"
  have nth: "\<forall>i<length ?grid. length (?grid ! i) = length (antennaInvert s ! i)
               \<and> length (?grid ! i) = ?cols"
    and leq: "length ?grid = length (antennaInvert s)"
    using shape by (auto simp: list_all2_conv_all_nth)
  have rect: "\<forall>row\<in>set ?grid. length row = ?cols"
    using nth by (auto simp: in_set_conv_nth)
  consider "?grid = []" | "?grid \<noteq> []" "?grid ! 0 = []" | "?grid \<noteq> []" "?grid ! 0 \<noteq> []"
    by blast
  then show ?thesis
  proof cases
    case 1
    have "convertOffsets ?grid (phaseCal s) (map (\<lambda>i. map (\<lambda>j. 0) [0..<?cols]) [0..<length ?grid])
            = Inl KeyError"
      by (rule convertOffsets_missing [OF rect cal miss])
    then have "convertOffsets ?grid (phaseCal s) [] = Inl KeyError" using 1 by simp
    then show ?thesis
      unfolding getPhaseSettings_run_empty_grid [OF cache grad 1] by simp
  next
    case 2
    have "rawOffsets ?grid ew ns = Inl IndexError" by (rule rawOffsets_no_columns [OF 2])
    then show ?thesis unfolding getPhaseSettings_def using cache grad by simp
  next
    case 3
    then have cols: "1 \<le> ?cols" by (simp add: Suc_le_eq)
    have msk: "\<forall>i<length ?grid. i < length (antennaInvert s) \<and> ?cols \<le> length (antennaInvert s ! i)"
      using nth leq by (metis order_refl)
    have "convertOffsets ?grid (phaseCal s)
            (map (\<lambda>i. map (\<lambda>j. real i * ns + real j * ew
                   + (if antennaInvert s ! i ! j then pi else 0)) [0..<?cols]) [0..<length ?grid])
            = Inl KeyError"
      by (rule convertOffsets_missing [OF rect cal miss])
    then show ?thesis
      unfolding getPhaseSettings_run [OF cache grad cols msk] by simp
  qed
qed

section \<open>Label lookup and repeated labels\<close>

lemma radiansToAwmf0108_zero: "radiansToAwmf0108 0 = Inr 0"
  by (simp add: radiansToAwmf0108_eq py_round_def)

lemma phaseGradients_broadside:
  assumes "theta s = 0" and "waveLength s \<noteq> 0"
  shows "phaseGradients s = Inr (0, 0)"
proof -
  have c: "cos (theta s) \<noteq> 0" using assms(1) by simp
  show ?thesis unfolding phaseGradients_ok [OF assms(2) c] using assms(1) by simp
qed

text \<open>
  Claim C10. A call of \<open>getPhaseSettings\<close> that computes (empty cache) can only return a
  result when the grid contains each of the four labels. On inputs that are otherwise valid
  (gradients defined, rectangular grid with a mask of the same shape, calibration table
  absent or complete), a grid that lacks a label makes the call raise a lookup error
  (KeyError, or IndexError when the rows are empty), and a grid with all four labels makes
  it return four settings, the \<open>n\<close>-th computed for the last position, in row-major
  order, that holds the \<open>n\<close>-th label of \<open>[NE, SE, SW, NW]\<close>.
\<close>

theorem getPhaseSettings_label_lookup:
  assumes "phaseSettings s = []"
  shows "(\<forall>r s'. getPhaseSettings s = (Inr r, s') \<longrightarrow> {NE, SE, SW, NW} \<subseteq> set (concat (antennaGrid s)))
    \<and> (\<forall>ew ns. phaseGradients s = Inr (ew, ns)
          \<and> list_all2 (\<lambda>g m. length g = length m \<and> length g = length (antennaGrid s ! 0))
                (antennaGrid s) (antennaInvert s)
          \<and> (phaseCal s = None \<or> phaseCal s = Some [] \<or>
              (\<exists>d. phaseCal s = Some d \<and> (\<forall>q\<in>{NE, SE, SW, NW}. \<exists>t. map_of d q = Some t \<and> t \<noteq> [])))
        \<longrightarrow>
          (\<not> {NE, SE, SW, NW} \<subseteq> set (concat (antennaGrid s)) \<longrightarrow>
             fst (getPhaseSettings s) = Inl KeyError \<or> fst (getPhaseSettings s) = Inl IndexError)
        \<and> ({NE, SE, SW, NW} \<subseteq> set (concat (antennaGrid s)) \<longrightarrow>
             (\<exists>r s'. getPhaseSettings s = (Inr r, s') \<and> length r = 4
                \<and> (\<forall>n<4. \<exists>i j v. i < length (antennaGrid s) \<and> j < length (antennaGrid s ! 0)
                      \<and> antennaGrid s ! i ! j = [NE, SE, SW, NW] ! n
                      \<and> (\<forall>i' j'. i' < length (antennaGrid s) \<and> j' < length (antennaGrid s ! 0)
                             \<and> antennaGrid s ! i' ! j' = [NE, SE, SW, NW] ! n
                           \<longrightarrow> i' < i \<or> (i' = i \<and> j' \<le> j))
                      \<and> radiansToAwmf0108 (real i * ns + real j * ew
                            + (if antennaInvert s ! i ! j then pi else 0)) = Inr v
                      \<and> applyCalibration ([NE, SE, SW, NW] ! n) v (phaseCal s) = Inr (r ! n)))))"
proof (intro conjI allI impI)
  fix r s' assume "getPhaseSettings s = (Inr r, s')"
  then show "{NE, SE, SW, NW} \<subseteq> set (concat (antennaGrid s))"
    by (rule getPhaseSettings_Inr_labels [OF assms])
next
  fix ew ns
  assume v: "phaseGradients s = Inr (ew, ns)
          \<and> list_all2 (\<lambda>g m. length g = length m \<and> length g = length (antennaGrid s ! 0))
                (antennaGrid s) (antennaInvert s)
          \<and> (phaseCal s = None \<or> phaseCal s = Some [] \<or>
              (\<exists>d. phaseCal s = Some d \<and> (\<forall>q\<in>{NE, SE, SW, NW}. \<exists>t. map_of d q = Some t \<and> t \<noteq> [])))"
    and m: "\<not> {NE, SE, SW, NW} \<subseteq> set (concat (antennaGrid s))"
  from v have g: "phaseGradients s = Inr (ew, ns)"
    and sh: "list_all2 (\<lambda>g m. length g = length m \<and> length g = length (antennaGrid s ! 0))
                (antennaGrid s) (antennaInvert s)"
    and c: "phaseCal s = None \<or> phaseCal s = Some [] \<or>
              (\<exists>d. phaseCal s = Some d \<and> (\<forall>q\<in>{NE, SE, SW, NW}. \<exists>t. map_of d q = Some t \<and> t \<noteq> []))"
    by blast+
  show "fst (getPhaseSettings s) = Inl KeyError \<or> fst (getPhaseSettings s) = Inl IndexError"
    by (rule getPhaseSettings_missing_label [OF assms g sh c m])
next
  fix ew ns
  assume v: "phaseGradients s = Inr (ew, ns)
          \<and> list_all2 (\<lambda>g m. length g = length m \<and> length g = length (antennaGrid s ! 0))
                (antennaGrid s) (antennaInvert s)
          \<and> (phaseCal s = None \<or> phaseCal s = Some [] \<or>
              (\<exists>d. phaseCal s = Some d \<and> (\<forall>q\<in>{NE, SE, SW, NW}. \<exists>t. map_of d q = Some t \<and> t \<noteq> [])))"
    and l: "{NE, SE, SW, NW} \<subseteq> set (concat (antennaGrid s))"
  from v have g: "phaseGradients s = Inr (ew, ns)"
    and sh: "list_all2 (\<lambda>g m. length g = length m \<and> length g = length (antennaGrid s ! 0))
                (antennaGrid s) (antennaInvert s)"
    and c: "phaseCal s = None \<or> phaseCal s = Some [] \<or>
              (\<exists>d. phaseCal s = Some d \<and> (\<forall>q\<in>{NE, SE, SW, NW}. \<exists>t. map_of d q = Some t \<and> t \<noteq> []))"
    by blast+
  from getPhaseSettings_valid [OF assms g sh l c]
  obtain r where r: "getPhaseSettings s =
           (Inr r, s\<lparr>phaseSettingsRaw :=
                       map (\<lambda>i. map (\<lambda>j. real i * ns + real j * ew) [0..<length (antennaGrid s ! 0)])
                         [0..<length (antennaGrid s)],
                     phaseSettings := r\<rparr>)"
    "length r = length [NE, SE, SW, NW]"
    "\<forall>n<length [NE, SE, SW, NW]. 0 \<le> r ! n \<and> r ! n \<le> 31 \<and>
              (\<exists>i j v. i < length (antennaGrid s) \<and> j < length (antennaGrid s ! 0)
                 \<and> antennaGrid s ! i ! j = [NE, SE, SW, NW] ! n
                 \<and> (\<forall>i' j'. i' < length (antennaGrid s) \<and> j' < length (antennaGrid s ! 0)
                        \<and> antennaGrid s ! i' ! j' = [NE, SE, SW, NW] ! n
                      \<longrightarrow> i' < i \<or> (i' = i \<and> j' \<le> j))
                 \<and> radiansToAwmf0108 (real i * ns + real j * ew
                       + (if antennaInvert s ! i ! j then pi else 0)) = Inr v
                 \<and> applyCalibration ([NE, SE, SW, NW] ! n) v (phaseCal s) = Inr (r ! n))"
    by blast
  have len: "length r = 4" using r(2) by simp
  have each: "\<forall>n<4. \<exists>i j v. i < length (antennaGrid s) \<and> j < length (antennaGrid s ! 0)
                 \<and> antennaGrid s ! i ! j = [NE, SE, SW, NW] ! n
                 \<and> (\<forall>i' j'. i' < length (antennaGrid s) \<and> j' < length (antennaGrid s ! 0)
                        \<and> antennaGrid s ! i' ! j' = [NE, SE, SW, NW] ! n
                      \<longrightarrow> i' < i \<or> (i' = i \<and> j' \<le> j))
                 \<and> radiansToAwmf0108 (real i * ns + real j * ew
                       + (if antennaInvert s ! i ! j then pi else 0)) = Inr v
                 \<and> applyCalibration ([NE, SE, SW, NW] ! n) v (phaseCal s) = Inr (r ! n)"
  proof (intro allI impI)
    fix n :: nat assume "n < 4"
    then have "n < length [NE, SE, SW, NW]" by simp
    with r(3) show "\<exists>i j v. i < length (antennaGrid s) \<and> j < length (antennaGrid s ! 0)
                 \<and> antennaGrid s ! i ! j = [NE, SE, SW, NW] ! n
                 \<and> (\<forall>i' j'. i' < length (antennaGrid s) \<and> j' < length (antennaGrid s ! 0)
                        \<and> antennaGrid s ! i' ! j' = [NE, SE, SW, NW] ! n
                      \<longrightarrow> i' < i \<or> (i' = i \<and> j' \<le> j))
                 \<and> radiansToAwmf0108 (real i * ns + real j * ew
                       + (if antennaInvert s ! i ! j then pi else 0)) = Inr v
                 \<and> applyCalibration ([NE, SE, SW, NW] ! n) v (phaseCal s) = Inr (r ! n)"
      by blast
  qed
  from r(1) len each
  show "\<exists>r s'. getPhaseSettings s = (Inr r, s') \<and> length r = 4
                \<and> (\<forall>n<4. \<exists>i j v. i < length (antennaGrid s) \<and> j < length (antennaGrid s ! 0)
                      \<and> antennaGrid s ! i ! j = [NE, SE, SW, NW] ! n
                      \<and> (\<forall>i' j'. i' < length (antennaGrid s) \<and> j' < length (antennaGrid s ! 0)
                             \<and> antennaGrid s ! i' ! j' = [NE, SE, SW, NW] ! n
                           \<longrightarrow> i' < i \<or> (i' = i \<and> j' \<le> j))
                      \<and> radiansToAwmf0108 (real i * ns + real j * ew
                            + (if antennaInvert s ! i ! j then pi else 0)) = Inr v
                      \<and> applyCalibration ([NE, SE, SW, NW] ! n) v (phaseCal s) = Inr (r ! n))"
    by blast
qed


theorem getPhaseSettings_label_lookup_witness:
  "phaseSettings (setAntenna (init 0 0 0.0107 None 1) [[NE, NW, SE, SW, NE]]
       [[True, False, True, False, False]] 0.0054) = []
   \<and> phaseGradients (setAntenna (init 0 0 0.0107 None 1) [[NE, NW, SE, SW, NE]]
       [[True, False, True, False, False]] 0.0054) = Inr (0, 0)
   \<and> {NE, SE, SW, NW} \<subseteq> set (concat [[NE, NW, SE, SW, NE]])
   \<and> (\<exists>r s'. getPhaseSettings (setAntenna (init 0 0 0.0107 None 1) [[NE, NW, SE, SW, NE]]
                [[True, False, True, False, False]] 0.0054) = (Inr r, s')
         \<and> length r = 4 \<and> r ! 0 = 0)
   \<and> phaseSettings (setAntenna (init 0 0 0.0107 None 1) [[NE, NW, SE]]
       [[True, False, True]] 0.0054) = []
   \<and> \<not> {NE, SE, SW, NW} \<subseteq> set (concat [[NE, NW, SE]])
   \<and> (fst (getPhaseSettings (setAntenna (init 0 0 0.0107 None 1) [[NE, NW, SE]]
              [[True, False, True]] 0.0054)) = Inl KeyError
        \<or> fst (getPhaseSettings (setAntenna (init 0 0 0.0107 None 1) [[NE, NW, SE]]
              [[True, False, True]] 0.0054)) = Inl IndexError)"
proof -
  let ?a = "setAntenna (init 0 0 0.0107 None 1) [[NE, NW, SE, SW, NE]]
              [[True, False, True, False, False]] 0.0054"
  let ?b = "setAntenna (init 0 0 0.0107 None 1) [[NE, NW, SE]] [[True, False, True]] 0.0054"
  have fa: "antennaGrid ?a = [[NE, NW, SE, SW, NE]]"
    "antennaInvert ?a = [[True, False, True, False, False]]" "phaseCal ?a = None"
    by (simp_all add: setAntenna_def init_def)
  have fb: "antennaGrid ?b = [[NE, NW, SE]]" "antennaInvert ?b = [[True, False, True]]"
    "phaseCal ?b = None"
    by (simp_all add: setAntenna_def init_def)
  have ca: "phaseSettings ?a = []" and cb: "phaseSettings ?b = []"
    by (simp_all add: setAntenna_def)
  have ga: "phaseGradients ?a = Inr (0, 0)" and gb: "phaseGradients ?b = Inr (0, 0)"
    by (rule phaseGradients_broadside; simp add: setAntenna_def init_def radians_def)+
  have la: "{NE, SE, SW, NW} \<subseteq> set (concat [[NE, NW, SE, SW, NE]])" by simp
  have lb: "\<not> {NE, SE, SW, NW} \<subseteq> set (concat [[NE, NW, SE]])"
    by (simp add: NE_def NW_def SE_def SW_def)
  have va: "phaseGradients ?a = Inr (0, 0)
          \<and> list_all2 (\<lambda>g m. length g = length m \<and> length g = length (antennaGrid ?a ! 0))
                (antennaGrid ?a) (antennaInvert ?a)
          \<and> (phaseCal ?a = None \<or> phaseCal ?a = Some [] \<or>
              (\<exists>d. phaseCal ?a = Some d \<and> (\<forall>q\<in>{NE, SE, SW, NW}. \<exists>t. map_of d q = Some t \<and> t \<noteq> [])))"
    using ga unfolding fa by simp
  have vb: "phaseGradients ?b = Inr (0, 0)
          \<and> list_all2 (\<lambda>g m. length g = length m \<and> length g = length (antennaGrid ?b ! 0))
                (antennaGrid ?b) (antennaInvert ?b)
          \<and> (phaseCal ?b = None \<or> phaseCal ?b = Some [] \<or>
              (\<exists>d. phaseCal ?b = Some d \<and> (\<forall>q\<in>{NE, SE, SW, NW}. \<exists>t. map_of d q = Some t \<and> t \<noteq> [])))"
    using gb unfolding fb by simp
  have la': "{NE, SE, SW, NW} \<subseteq> set (concat (antennaGrid ?a))" unfolding fa by (rule la)
  have lb': "\<not> {NE, SE, SW, NW} \<subseteq> set (concat (antennaGrid ?b))" unfolding fb by (rule lb)
  note ta = getPhaseSettings_label_lookup [OF ca, THEN conjunct2, rule_format, OF va]
  note tb = getPhaseSettings_label_lookup [OF cb, THEN conjunct2, rule_format, OF vb]
  from ta [THEN conjunct2, THEN mp, OF la']
  obtain r s' where r: "getPhaseSettings ?a = (Inr r, s')" "length r = 4"
    and r3: "\<forall>n<4. \<exists>i j v. i < length (antennaGrid ?a) \<and> j < length (antennaGrid ?a ! 0)
                      \<and> antennaGrid ?a ! i ! j = [NE, SE, SW, NW] ! n
                      \<and> (\<forall>i' j'. i' < length (antennaGrid ?a) \<and> j' < length (antennaGrid ?a ! 0)
                             \<and> antennaGrid ?a ! i' ! j' = [NE, SE, SW, NW] ! n
                           \<longrightarrow> i' < i \<or> (i' = i \<and> j' \<le> j))
                      \<and> radiansToAwmf0108 (real i * 0 + real j * 0
                            + (if antennaInvert ?a ! i ! j then pi else 0)) = Inr v
                      \<and> applyCalibration ([NE, SE, SW, NW] ! n) v (phaseCal ?a) = Inr (r ! n)"
    by (elim exE conjE)
  have "\<exists>i j v. i < length (antennaGrid ?a) \<and> j < length (antennaGrid ?a ! 0)
                      \<and> antennaGrid ?a ! i ! j = [NE, SE, SW, NW] ! 0
                      \<and> (\<forall>i' j'. i' < length (antennaGrid ?a) \<and> j' < length (antennaGrid ?a ! 0)
                             \<and> antennaGrid ?a ! i' ! j' = [NE, SE, SW, NW] ! 0
                           \<longrightarrow> i' < i \<or> (i' = i \<and> j' \<le> j))
                      \<and> radiansToAwmf0108 (real i * 0 + real j * 0
                            + (if antennaInvert ?a ! i ! j then pi else 0)) = Inr v
                      \<and> applyCalibration ([NE, SE, SW, NW] ! 0) v (phaseCal ?a) = Inr (r ! 0)"
    using r3 [rule_format, of 0] by simp
  then obtain i j v where ij: "i < length [[NE, NW, SE, SW, NE]]"
    "j < length ([[NE, NW, SE, SW, NE]] ! 0)"
    and last: "\<forall>i' j'. i' < length [[NE, NW, SE, SW, NE]] \<and> j' < length ([[NE, NW, SE, SW, NE]] ! 0)
                  \<and> [[NE, NW, SE, SW, NE]] ! i' ! j' = [NE, SE, SW, NW] ! 0
                \<longrightarrow> i' < i \<or> (i' = i \<and> j' \<le> j)"
    and q: "radiansToAwmf0108 (real i * 0 + real j * 0
              + (if [[True, False, True, False, False]] ! i ! j then pi else 0)) = Inr v"
    and c: "applyCalibration ([NE, SE, SW, NW] ! 0) v None = Inr (r ! 0)"
    unfolding fa by (elim exE conjE)
  have "(0::nat) < i \<or> (0 = i \<and> 4 \<le> j)" using last [rule_format, of 0 4] by simp
  then have "i = 0" "j = 4" using ij by simp_all
  then have "v = 0" using q by (simp add: radiansToAwmf0108_zero)
  then have r0: "r ! 0 = 0" using c by (simp add: applyCalibration_def truthy_def)
  have eb: "fst (getPhaseSettings ?b) = Inl KeyError \<or> fst (getPhaseSettings ?b) = Inl IndexError"
    by (rule tb [THEN conjunct1, THEN mp, OF lb'])
  have ex: "\<exists>r s'. getPhaseSettings ?a = (Inr r, s') \<and> length r = 4 \<and> r ! 0 = 0"
    using r r0 by blast
  show ?thesis by (intro conjI ca ga la ex cb lb eb)
qed

section \<open>The sampling loops\<close>

lemma phiLoop_af_max:
  assumes "phiLoop absAf p_max p_d t p s points af_max = Some y"
  shows "\<forall>points' af_max' s'. y = (Inr (points', af_max'), s') \<longrightarrow> 1 \<le> cmod af_max \<longrightarrow>
           1 \<le> cmod af_max'
           \<and> (\<exists>new. points' = points @ new
                 \<and> ((\<forall>q\<in>set new. cmod (snd (snd q)) \<le> cmod af_max) \<longrightarrow> af_max' = af_max))"
proof -
  let ?P = "\<lambda>(absAf :: bool) (p_max :: real) (p_d :: real) (t :: real) (p :: real)
              (s :: BeamDefinition) (points :: point list) (af_max :: complex)
              (y :: (py_error + point list \<times> complex) \<times> BeamDefinition).
      \<forall>points' af_max' s'. y = (Inr (points', af_max'), s') \<longrightarrow> 1 \<le> cmod af_max \<longrightarrow>
           1 \<le> cmod af_max'
           \<and> (\<exists>new. points' = points @ new
                 \<and> ((\<forall>q\<in>set new. cmod (snd (snd q)) \<le> cmod af_max) \<longrightarrow> af_max' = af_max))"
  have "?P absAf p_max p_d t p s points af_max y"
  proof (rule phiLoop.raw_induct [where P = ?P, OF _ assms])
    fix f absAf p_max p_d t p s points af_max y
    assume ih: "\<And>a b c d e g h i z. f a b c d e g h i = Some z \<Longrightarrow> ?P a b c d e g h i z"
      and unf: "(if p < p_max
          then case afSample s t p of (Inl e, s') \<Rightarrow> Some (Inl e, s')
               | (Inr a0, s') \<Rightarrow>
                   let a = if absAf then complex_of_real (cmod a0) else a0
                   in f absAf p_max p_d t (p + p_d) s' (points @ [(t, p, a)])
                       (if cmod af_max < cmod a then a else af_max)
          else Some (Inr (points, af_max), s)) = Some y"
    show "?P absAf p_max p_d t p s points af_max y"
    proof (intro allI impI)
      fix points' af_max' s'
      assume y: "y = (Inr (points', af_max'), s')" and m: "1 \<le> cmod af_max"
      show "1 \<le> cmod af_max'
             \<and> (\<exists>new. points' = points @ new
                   \<and> ((\<forall>q\<in>set new. cmod (snd (snd q)) \<le> cmod af_max) \<longrightarrow> af_max' = af_max))"
      proof (cases "p < p_max")
        case False
        with unf y have "points' = points" "af_max' = af_max" by simp_all
        with m show ?thesis by simp
      next
        case True
        obtain res s1 where sm: "afSample s t p = (res, s1)" by (cases "afSample s t p")
        show ?thesis
        proof (cases res)
          case (Inl e)
          with unf True sm y show ?thesis by simp
        next
          case (Inr a0)
          let ?a = "if absAf then complex_of_real (cmod a0) else a0"
          let ?m = "if cmod af_max < cmod ?a then ?a else af_max"
          from unf True sm Inr have call:
            "f absAf p_max p_d t (p + p_d) s1 (points @ [(t, p, ?a)]) ?m = Some y"
            by (simp add: Let_def)
          have m': "1 \<le> cmod ?m" using m by (cases "cmod af_max < cmod ?a") simp_all
          from ih [OF call, rule_format, OF y m']
          obtain new where new: "1 \<le> cmod af_max'" "points' = (points @ [(t, p, ?a)]) @ new"
            "(\<forall>q\<in>set new. cmod (snd (snd q)) \<le> cmod ?m) \<longrightarrow> af_max' = ?m" by blast
          have "af_max' = af_max"
            if all: "\<forall>q\<in>set ((t, p, ?a) # new). cmod (snd (snd q)) \<le> cmod af_max"
          proof -
            from all have a: "cmod ?a \<le> cmod af_max" by simp
            then have eq: "?m = af_max" by simp
            from all have "\<forall>q\<in>set new. cmod (snd (snd q)) \<le> cmod af_max" by simp
            with new(3) eq show ?thesis by simp
          qed
          then show ?thesis using new(1,2)
            by (intro conjI exI [of _ "(t, p, ?a) # new"]) simp_all
        qed
      qed
    qed
  qed
  then show ?thesis .
qed

lemma thetaLoop_af_max:
  assumes "thetaLoop absAf t_max p_max p_d t_d t s points af_max = Some y"
  shows "\<forall>points' af_max' s'. y = (Inr (points', af_max'), s') \<longrightarrow> 1 \<le> cmod af_max \<longrightarrow>
           1 \<le> cmod af_max'
           \<and> (\<exists>new. points' = points @ new
                 \<and> ((\<forall>q\<in>set new. cmod (snd (snd q)) \<le> cmod af_max) \<longrightarrow> af_max' = af_max))"
proof -
  let ?P = "\<lambda>(absAf :: bool) (t_max :: real) (p_max :: real) (p_d :: real) (t_d :: real) (t :: real)
              (s :: BeamDefinition) (points :: point list) (af_max :: complex)
              (y :: (py_error + point list \<times> complex) \<times> BeamDefinition).
      \<forall>points' af_max' s'. y = (Inr (points', af_max'), s') \<longrightarrow> 1 \<le> cmod af_max \<longrightarrow>
           1 \<le> cmod af_max'
           \<and> (\<exists>new. points' = points @ new
                 \<and> ((\<forall>q\<in>set new. cmod (snd (snd q)) \<le> cmod af_max) \<longrightarrow> af_max' = af_max))"
  have "?P absAf t_max p_max p_d t_d t s points af_max y"
  proof (rule thetaLoop.raw_induct [where P = ?P, OF _ assms])
    fix f absAf t_max p_max p_d t_d t s points af_max y
    assume ih: "\<And>a b c d e g h i j z. f a b c d e g h i j = Some z \<Longrightarrow> ?P a b c d e g h i j z"
      and unf: "(if t < t_max
          then Option.bind (phiLoop absAf p_max p_d t 0 s points af_max)
                (\<lambda>r. case r of (Inl e, s') \<Rightarrow> Some (Inl e, s')
                     | (Inr (points', af_max'), s') \<Rightarrow>
                         f absAf t_max p_max p_d t_d (t + t_d) s' points' af_max')
          else Some (Inr (points, af_max), s)) = Some y"
    show "?P absAf t_max p_max p_d t_d t s points af_max y"
    proof (intro allI impI)
      fix points' af_max' s'
      assume y: "y = (Inr (points', af_max'), s')" and m: "1 \<le> cmod af_max"
      show "1 \<le> cmod af_max'
             \<and> (\<exists>new. points' = points @ new
                   \<and> ((\<forall>q\<in>set new. cmod (snd (snd q)) \<le> cmod af_max) \<longrightarrow> af_max' = af_max))"
      proof (cases "t < t_max")
        case False
        with unf y have "points' = points" "af_max' = af_max" by simp_all
        with m show ?thesis by simp
      next
        case True
        with unf obtain r where r: "phiLoop absAf p_max p_d t 0 s points af_max = Some r"
          and rest: "(case r of (Inl e, s') \<Rightarrow> Some (Inl e, s')
                      | (Inr (points', af_max'), s') \<Rightarrow>
                          f absAf t_max p_max p_d t_d (t + t_d) s' points' af_max') = Some y"
          by (auto simp: bind_eq_Some_conv)
        obtain res s1 where rs: "r = (res, s1)" by (cases r)
        show ?thesis
        proof (cases res)
          case (Inl e)
          with rest rs y show ?thesis by simp
        next
          case (Inr pm)
          obtain points1 af_max1 where pm: "pm = (points1, af_max1)" by (cases pm)
          from rest rs Inr pm have call:
            "f absAf t_max p_max p_d t_d (t + t_d) s1 points1 af_max1 = Some y" by simp
          have r': "r = (Inr (points1, af_max1), s1)" using rs Inr pm by simp
          from phiLoop_af_max [OF r, rule_format, OF r' m]
          obtain new1 where n1: "1 \<le> cmod af_max1" "points1 = points @ new1"
            "(\<forall>q\<in>set new1. cmod (snd (snd q)) \<le> cmod af_max) \<longrightarrow> af_max1 = af_max" by blast
          from ih [OF call, rule_format, OF y n1(1)]
          obtain new2 where n2: "1 \<le> cmod af_max'" "points' = points1 @ new2"
            "(\<forall>q\<in>set new2. cmod (snd (snd q)) \<le> cmod af_max1) \<longrightarrow> af_max' = af_max1" by blast
          have "af_max' = af_max"
            if all: "\<forall>q\<in>set (new1 @ new2). cmod (snd (snd q)) \<le> cmod af_max"
          proof -
            from all n1(3) have e1: "af_max1 = af_max" by simp
            from all have "\<forall>q\<in>set new2. cmod (snd (snd q)) \<le> cmod af_max1" unfolding e1 by simp
            with n2(3) e1 show ?thesis by simp
          qed
          then show ?thesis using n2(1,2) n1(2)
            by (intro conjI exI [of _ "new1 @ new2"]) simp_all
        qed
      qed
    qed
  qed
  then show ?thesis .
qed

lemma normalizePoints_nonzero:
  "cmod af_max \<noteq> 0 \<Longrightarrow>
     normalizePoints points af_max =
       Inr (map (\<lambda>(t, p, a). (t, p, a / of_real (cmod af_max))) points)"
  by (induction points af_max rule: normalizePoints.induct) simp_all

lemma generateAllAF_loop:
  assumes "generateAllAF s n_theta n_phi normalized absAf backLobes = Some (Inr out, s')"
  shows "\<exists>points af_max.
           thetaLoop absAf (if backLobes then 180 else 90) 360 (360 / n_phi)
               ((if backLobes then 180 else 90) / n_theta) 0 s [] (- 1)
             = Some (Inr (points, af_max), s')
           \<and> n_phi \<noteq> 0 \<and> n_theta \<noteq> 0
           \<and> (if normalized then normalizePoints points af_max = Inr out else out = points)"
proof -
  have nz: "n_phi \<noteq> 0" "n_theta \<noteq> 0"
    using assms by (auto simp: generateAllAF_def py_div_def Let_def split: if_splits)
  let ?L = "thetaLoop absAf (if backLobes then 180 else 90) 360 (360 / n_phi)
               ((if backLobes then 180 else 90) / n_theta) 0 s [] (- 1)"
  from assms nz obtain r where r: "?L = Some r"
    and rest: "(case r of (Inl e, s') \<Rightarrow> Some (Inl e, s')
                | (Inr (points, af_max), s') \<Rightarrow>
                    if normalized then Some (normalizePoints points af_max, s')
                    else Some (Inr points, s')) = Some (Inr out, s')"
    by (auto simp: generateAllAF_def py_div_def Let_def bind_eq_Some_conv split: if_splits)
  obtain res s1 where rs: "r = (res, s1)" by (cases r)
  show ?thesis
  proof (cases res)
    case (Inl e)
    with rest rs show ?thesis by simp
  next
    case (Inr pm)
    obtain points af_max where pm: "pm = (points, af_max)" by (cases pm)
    from rest rs Inr pm have "s1 = s'"
      "if normalized then normalizePoints points af_max = Inr out else out = points"
      by (auto split: if_splits)
    with r rs Inr pm nz show ?thesis by auto
  qed
qed

section \<open>Relative gain and a sweep of one sample\<close>

lemma comprehend_Inr: "comprehend (Inr v) n = Inr (replicate n v)"
  by (induction n) simp_all

lemma comprehend_Inl: "0 < n \<Longrightarrow> comprehend (Inl e) n = Inl e"
  by (cases n) simp_all

lemma getRelativeGain_cached:
  "gainSettings s \<noteq> [] \<Longrightarrow> getRelativeGain s = (Inr (gainSettings s), s)"
  by (simp add: getRelativeGain_def)

lemma getRelativeGain_uniform:
  assumes "gainSettings s = []" and "beamStrength s \<noteq> 0" and "antennaGrid s \<noteq> []"
  shows "getRelativeGain s =
           (Inr (replicate (length (antennaGrid s)) (replicate (length (antennaGrid s ! 0)) 1)),
            s\<lparr>gainSettings :=
                 replicate (length (antennaGrid s)) (replicate (length (antennaGrid s ! 0)) 1)\<rparr>)"
  using assms by (simp add: getRelativeGain_def py_div_def comprehend_Inr Let_def)

lemma getRelativeGain_zero:
  assumes "gainSettings s = []" and "beamStrength s = 0" and "antennaGrid s \<noteq> []"
    and "antennaGrid s ! 0 \<noteq> []"
  shows "getRelativeGain s = (Inl ZeroDivisionError, s)"
  using assms by (simp add: getRelativeGain_def py_div_def comprehend_Inl comprehend_Inr Let_def)

lemma phiLoop_exit:
  "\<not> p < p_max \<Longrightarrow> phiLoop absAf p_max p_d t p s points af_max = Some (Inr (points, af_max), s)"
  by (subst phiLoop.simps) simp

lemma thetaLoop_exit:
  "\<not> t < t_max \<Longrightarrow>
     thetaLoop absAf t_max p_max p_d t_d t s points af_max = Some (Inr (points, af_max), s)"
  by (subst thetaLoop.simps) simp

lemma generateAllAF_single_sample:
  assumes "afSample s 0 0 = (Inr a0, s')"
  shows "generateAllAF s 1 1 normalized absAf False =
     Some (if normalized
           then normalizePoints [(0, 0, if absAf then complex_of_real (cmod a0) else a0)]
                  (if 1 < cmod a0 then (if absAf then complex_of_real (cmod a0) else a0) else - 1)
           else Inr [(0, 0, if absAf then complex_of_real (cmod a0) else a0)], s')"
proof -
  let ?a = "if absAf then complex_of_real (cmod a0) else a0"
  let ?m = "if 1 < cmod a0 then ?a else - 1"
  have "phiLoop absAf 360 360 0 0 s [] (- 1) = Some (Inr ([(0, 0, ?a)], ?m), s')"
    by (subst phiLoop.simps) (use assms in \<open>simp add: Let_def phiLoop_exit\<close>)
  then have "thetaLoop absAf 90 360 360 90 0 s [] (- 1) = Some (Inr ([(0, 0, ?a)], ?m), s')"
    by (subst thetaLoop.simps) (simp add: thetaLoop_exit)
  then show ?thesis by (simp add: generateAllAF_def py_div_def)
qed

section \<open>The array factor on the default grid\<close>

lemma phaseGradients_gainSettings [simp]:
  "phaseGradients (s\<lparr>gainSettings := g\<rparr>) = phaseGradients s"
  by (simp add: phaseGradients_def)

lemma afSample_default_grid:
  assumes "gainSettings s = []" and "phaseSettingsRaw s = []" and "phaseSettings s = []"
    and "beamStrength s \<noteq> 0"
    and "antennaGrid s = [[NE, NW, SE, SW]]" and "antennaInvert s = [[True, False, True, False]]"
    and "phaseGradients s = Inr (ew, ns)" and "waveLength s \<noteq> 0" and "phaseCal s = None"
  shows "\<exists>s'. afSample s 0 0 =
           (Inr (1 + exp (\<i> * of_real ew) + exp (\<i> * of_real (2 * ew))
                   + exp (\<i> * of_real (3 * ew))), s')"
proof -
  let ?G = "[[1, 1, 1, 1 :: real]]"
  let ?F = "[[0, ew, 2 * ew, 3 * ew]]"
  let ?s1 = "s\<lparr>gainSettings := ?G\<rparr>"
  have g: "getRelativeGain s = (Inr ?G, ?s1)"
    using getRelativeGain_uniform [of s] assms(1,4,5) by simp
  have c1: "phaseSettings ?s1 = []" using assms(3) by simp
  have c2: "phaseGradients ?s1 = Inr (ew, ns)" using assms(7) by simp
  have c3: "list_all2 (\<lambda>g m. length g = length m \<and> length g = length (antennaGrid ?s1 ! 0))
              (antennaGrid ?s1) (antennaInvert ?s1)" using assms(5,6) by simp
  have c4: "{NE, SE, SW, NW} \<subseteq> set (concat (antennaGrid ?s1))" using assms(5) by simp
  have c5: "phaseCal ?s1 = None \<or> phaseCal ?s1 = Some [] \<or>
      (\<exists>d. phaseCal ?s1 = Some d \<and> (\<forall>q\<in>{NE, SE, SW, NW}. \<exists>t. map_of d q = Some t \<and> t \<noteq> []))"
    using assms(9) by simp
  from getPhaseSettings_valid [OF c1 c2 c3 c4 c5]
  obtain r where r0: "getPhaseSettings ?s1 =
           (Inr r, ?s1\<lparr>phaseSettingsRaw :=
                       map (\<lambda>i. map (\<lambda>j. real i * ns + real j * ew) [0..<length (antennaGrid ?s1 ! 0)])
                         [0..<length (antennaGrid ?s1)],
                     phaseSettings := r\<rparr>)" by blast
  have f: "map (\<lambda>i. map (\<lambda>j. real i * ns + real j * ew) [0..<length (antennaGrid ?s1 ! 0)])
             [0..<length (antennaGrid ?s1)] = ?F"
    using assms(5) by (simp add: upt_rec_numeral)
  have r: "getPhaseSettings ?s1 = (Inr r, ?s1\<lparr>phaseSettingsRaw := ?F, phaseSettings := r\<rparr>)"
    using r0 unfolding f .
  let ?s2 = "?s1\<lparr>phaseSettingsRaw := ?F, phaseSettings := r\<rparr>"
  have raw: "getRawPhaseSettings ?s1 = (Inr ?F, ?s2)"
    using assms(2) r by (simp add: getRawPhaseSettings_def)
  have af: "calculateArrayFactor ?s2 (radians 0) (radians 0) ?G ?F (waveLength ?s2) =
          Inr (1 + exp (\<i> * of_real ew) + exp (\<i> * of_real (2 * ew))
                   + exp (\<i> * of_real (3 * ew)))"
    using assms(5,8)
    by (simp add: calculateArrayFactor_def py_div_def radians_def getitem2_def upt_rec_numeral)
  have "afSample s 0 0 = (Inr (1 + exp (\<i> * of_real ew) + exp (\<i> * of_real (2 * ew))
                   + exp (\<i> * of_real (3 * ew))), ?s2)"
    using af by (simp add: afSample_def g raw)
  then show ?thesis by blast
qed

section \<open>Values of the array factor\<close>

lemma exp_i_real: "exp (\<i> * complex_of_real x) = Complex (cos x) (sin x)"
  by (simp add: cis_conv_exp [symmetric] complex_eq_iff)

lemma trig_3pi: "cos (3 * pi) = - 1" "sin (3 * pi) = 0"
  using cos_npi [of 3] sin_npi [of 3] by simp_all

lemma trig_5pi_6: "cos (5 * pi / 6) = - (sqrt 3 / 2)" "sin (5 * pi / 6) = 1 / 2"
proof -
  have e: "5 * pi / 6 = pi - pi / 6" by simp
  show "cos (5 * pi / 6) = - (sqrt 3 / 2)" unfolding e cos_pi_minus by (simp add: cos_30)
  show "sin (5 * pi / 6) = 1 / 2" unfolding e sin_pi_minus by (simp add: sin_30)
qed

lemma trig_5pi_3: "cos (5 * pi / 3) = 1 / 2" "sin (5 * pi / 3) = - (sqrt 3 / 2)"
proof -
  have e: "5 * pi / 3 = 2 * pi - pi / 3" by simp
  show "cos (5 * pi / 3) = 1 / 2" unfolding e cos_2pi_minus by (simp add: cos_60)
  show "sin (5 * pi / 3) = - (sqrt 3 / 2)" unfolding e sin_2pi_minus by (simp add: sin_60)
qed

lemma trig_5pi_2: "cos (5 * pi / 2) = 0" "sin (5 * pi / 2) = 1"
proof -
  have e: "5 * pi / 2 = pi / 2 + 2 * pi" by simp
  show "cos (5 * pi / 2) = 0" unfolding e cos_periodic by simp
  show "sin (5 * pi / 2) = 1" unfolding e sin_periodic by simp
qed

lemma af_sum_minus_pi:
  "1 + exp (\<i> * of_real (- pi)) + exp (\<i> * of_real (2 * - pi)) + exp (\<i> * of_real (3 * - pi))
     = (0 :: complex)"
  unfolding exp_i_real by (simp add: complex_eq_iff trig_3pi)

lemma af_sum_minus_5pi_6:
  "1 + exp (\<i> * of_real (- (5 * pi / 6))) + exp (\<i> * of_real (2 * - (5 * pi / 6)))
     + exp (\<i> * of_real (3 * - (5 * pi / 6)))
     = Complex ((3 - sqrt 3) / 2) (- ((3 - sqrt 3) / 2))"
proof -
  have a: "2 * - (5 * pi / 6) = - (5 * pi / 3)" "3 * - (5 * pi / 6) = - (5 * pi / 2)" by simp_all
  have re: "1 + cos (5 * pi / 6) + cos (5 * pi / 3) + cos (5 * pi / 2) = (3 - sqrt 3) / 2"
    unfolding trig_5pi_6 trig_5pi_3 trig_5pi_2 by (simp add: field_simps)
  have im: "- sin (5 * pi / 6) - sin (5 * pi / 3) - sin (5 * pi / 2) = - ((3 - sqrt 3) / 2)"
    unfolding trig_5pi_6 trig_5pi_3 trig_5pi_2 by (simp add: field_simps)
  show ?thesis unfolding exp_i_real a
    using re im by (simp add: complex_eq_iff)
qed

lemma cmod_af_sum: "cmod (Complex ((3 - sqrt 3) / 2) (- ((3 - sqrt 3) / 2))) = sqrt (6 - 3 * sqrt 3)"
proof -
  have "((3 - sqrt 3) / 2)\<^sup>2 + (- ((3 - sqrt 3) / 2))\<^sup>2 = 6 - 3 * sqrt 3"
    by (simp add: power2_eq_square field_simps)
  then show ?thesis by (simp add: cmod_def)
qed

lemma sqrt3_bounds: "5 / 3 < sqrt 3" "sqrt 3 < 2"
proof -
  have "sqrt ((5 / 3)\<^sup>2) < sqrt 3" by (rule real_sqrt_less_mono) (simp add: power2_eq_square)
  then show "5 / 3 < sqrt 3" by simp
  have "sqrt 3 < sqrt (2\<^sup>2)" by (rule real_sqrt_less_mono) simp
  then show "sqrt 3 < 2" by simp
qed

lemma magnitude_bounds: "0 < sqrt (6 - 3 * sqrt 3)" "sqrt (6 - 3 * sqrt 3) < 1"
proof -
  show "0 < sqrt (6 - 3 * sqrt 3)" using sqrt3_bounds by simp
  have "sqrt (6 - 3 * sqrt 3) < sqrt 1" by (rule real_sqrt_less_mono) (use sqrt3_bounds in simp)
  then show "sqrt (6 - 3 * sqrt 3) < 1" by simp
qed

section \<open>Normalization\<close>

lemma normalizePoints_unit:
  "normalizePoints points (- 1) = Inr points"
proof -
  have "map (\<lambda>(t, p, a). (t, p, a / complex_of_real (cmod (- 1)))) points = points"
    by (induction points) auto
  then show ?thesis using normalizePoints_nonzero [of "- 1" points] by simp
qed

lemma generateAllAF_from_loop:
  assumes "thetaLoop absAf (if backLobes then 180 else 90) 360 (360 / n_phi)
               ((if backLobes then 180 else 90) / n_theta) 0 s [] (- 1)
             = Some (Inr (points, af_max), s')"
    and "n_phi \<noteq> 0" and "n_theta \<noteq> 0"
  shows "generateAllAF s n_theta n_phi True absAf backLobes
           = Some (normalizePoints points af_max, s')"
  using assms by (simp add: generateAllAF_def py_div_def Let_def)

text \<open>
  Claim C9. When every sample of the sweep is exactly zero (the samples are what the call
  without normalization returns), the call with \<open>normalized=True\<close> returns as well, with
  the same zero samples: the divisor is \<open>abs(af_max)\<close> with \<open>af_max\<close> still at its initial
  value \<open>-1\<close>, so no division by zero takes place.
\<close>

theorem generateAllAF_all_zero_defined:
  assumes "generateAllAF s n_theta n_phi False absAf backLobes = Some (Inr points, s')"
    and "\<forall>q\<in>set points. snd (snd q) = 0"
  shows "generateAllAF s n_theta n_phi True absAf backLobes = Some (Inr points, s')"
proof -
  from generateAllAF_loop [OF assms(1)]
  obtain pts af_max where loop:
    "thetaLoop absAf (if backLobes then 180 else 90) 360 (360 / n_phi)
               ((if backLobes then 180 else 90) / n_theta) 0 s [] (- 1)
             = Some (Inr (pts, af_max), s')"
    and nz: "n_phi \<noteq> 0" "n_theta \<noteq> 0" and "points = pts" by auto
  then have loop': "thetaLoop absAf (if backLobes then 180 else 90) 360 (360 / n_phi)
               ((if backLobes then 180 else 90) / n_theta) 0 s [] (- 1)
             = Some (Inr (points, af_max), s')" by simp
  have "(1::real) \<le> cmod (- 1)" by simp
  from thetaLoop_af_max [OF loop', rule_format, OF refl this]
  obtain new where new: "points = [] @ new"
    "(\<forall>q\<in>set new. cmod (snd (snd q)) \<le> cmod (- 1 :: complex)) \<longrightarrow> af_max = - 1" by blast
  have "\<forall>q\<in>set new. cmod (snd (snd q)) \<le> cmod (- 1 :: complex)"
    using assms(2) new(1) by simp
  with new(2) have "af_max = - 1" by simp
  with generateAllAF_from_loop [OF loop' nz] show ?thesis by (simp add: normalizePoints_unit)
qed

lemma afSample_minus_pi:
  "\<exists>s'. afSample (init 30 90 0.0054 None 1) 0 0 = (Inr 0, s')"
proof -
  let ?s = "init 30 90 0.0054 None 1"
  have "phaseGradients ?s = Inr (- (2 * pi / waveLength ?s) * antennaSpacing ?s * (1 / 2), 0)"
    by (rule phaseGradients_30_90) (simp_all add: init_def)
  then have g: "phaseGradients ?s = Inr (- pi, 0)" by (simp add: init_def)
  have "\<exists>s'. afSample ?s 0 0 =
           (Inr (1 + exp (\<i> * of_real (- pi)) + exp (\<i> * of_real (2 * - pi))
                   + exp (\<i> * of_real (3 * - pi))), s')"
    by (rule afSample_default_grid [OF _ _ _ _ _ _ g]) (simp_all add: init_def)
  then show ?thesis unfolding af_sum_minus_pi .
qed

theorem generateAllAF_all_zero_defined_witness:
  "\<exists>s'. generateAllAF (init 30 90 0.0054 None 1) 1 1 False True False = Some (Inr [(0, 0, 0)], s')
         \<and> snd (snd (0 :: real, 0 :: real, 0 :: complex)) = 0
         \<and> generateAllAF (init 30 90 0.0054 None 1) 1 1 True True False = Some (Inr [(0, 0, 0)], s')"
proof -
  from afSample_minus_pi obtain s' where
    sm: "afSample (init 30 90 0.0054 None 1) 0 0 = (Inr 0, s')" by blast
  have a: "generateAllAF (init 30 90 0.0054 None 1) 1 1 False True False
             = Some (Inr [(0, 0, 0)], s')"
    using generateAllAF_single_sample [OF sm, of False True] by simp
  have b: "\<forall>q\<in>set [(0 :: real, 0 :: real, 0 :: complex)]. snd (snd q) = 0" by simp
  have "generateAllAF (init 30 90 0.0054 None 1) 1 1 True True False
             = Some (Inr [(0, 0, 0)], s')"
    by (rule generateAllAF_all_zero_defined [OF a b])
  with a show ?thesis by auto
qed

lemma afSample_minus_5pi_6:
  "\<exists>s'. afSample (init 30 90 0.00648 None 1) 0 0
          = (Inr (Complex ((3 - sqrt 3) / 2) (- ((3 - sqrt 3) / 2))), s')"
proof -
  let ?s = "init 30 90 0.00648 None 1"
  have "phaseGradients ?s = Inr (- (2 * pi / waveLength ?s) * antennaSpacing ?s * (1 / 2), 0)"
    by (rule phaseGradients_30_90) (simp_all add: init_def)
  then have g: "phaseGradients ?s = Inr (- (5 * pi / 6), 0)" by (simp add: init_def)
  have "\<exists>s'. afSample ?s 0 0 =
           (Inr (1 + exp (\<i> * of_real (- (5 * pi / 6))) + exp (\<i> * of_real (2 * - (5 * pi / 6)))
                   + exp (\<i> * of_real (3 * - (5 * pi / 6)))), s')"
    by (rule afSample_default_grid [OF _ _ _ _ _ _ g]) (simp_all add: init_def)
  then show ?thesis unfolding af_sum_minus_5pi_6 .
qed

text \<open>
  Claim C4 at a failing input. \<open>BeamDefinition(30, 90, 0.00648).generateAllAF(1, 1)\<close> takes one
  sample, of magnitude \<open>sqrt (6 - 3 * sqrt 3)\<close>, about 0.897: not zero, yet the normalized
  list holds that magnitude unchanged, so its maximum is below 1. The running maximum
  starts at \<open>-1\<close> and is compared through \<open>abs\<close>, so a sweep whose magnitudes never
  exceed 1 is divided by 1.
\<close>

theorem generateAllAF_peak_below_one:
  "\<exists>s'. generateAllAF (init 30 90 0.00648 None 1) 1 1 True True False
          = Some (Inr [(0, 0, complex_of_real (sqrt (6 - 3 * sqrt 3)))], s')
        \<and> 0 < sqrt (6 - 3 * sqrt 3) \<and> sqrt (6 - 3 * sqrt 3) < 1"
proof -
  from afSample_minus_5pi_6 obtain s' where
    sm: "afSample (init 30 90 0.00648 None 1) 0 0
          = (Inr (Complex ((3 - sqrt 3) / 2) (- ((3 - sqrt 3) / 2))), s')" by blast
  have "generateAllAF (init 30 90 0.00648 None 1) 1 1 True True False
          = Some (Inr [(0, 0, complex_of_real (sqrt (6 - 3 * sqrt 3)))], s')"
    using generateAllAF_single_sample [OF sm, of True True] magnitude_bounds
    by (simp add: cmod_af_sum)
  with magnitude_bounds show ?thesis by blast
qed

section \<open>Invalidation of the caches\<close>

text \<open>
  Claim C7 at a failing input. With \<open>beamStrength = 0\<close> (0 dB) the quotient
  \<open>beamStrength / beamStrength\<close> raises ZeroDivisionError: \<open>getRelativeGain\<close> returns no
  field, where the docstring and the claim say every entry is 1.
\<close>

theorem getRelativeGain_zero_beamStrength:
  "getRelativeGain (init 0 0 0.0107 None 0) = (Inl ZeroDivisionError, init 0 0 0.0107 None 0)
   \<and> getRelativeGain (init 0 0 0.0107 None 1)
       = (Inr [[1, 1, 1, 1]], (init 0 0 0.0107 None 1)\<lparr>gainSettings := [[1, 1, 1, 1]]\<rparr>)"
proof -
  have a: "getRelativeGain (init 0 0 0.0107 None 0)
           = (Inl ZeroDivisionError, init 0 0 0.0107 None 0)"
    by (rule getRelativeGain_zero) (simp_all add: init_def)
  have b: "getRelativeGain (init 0 0 0.0107 None 1)
       = (Inr [[1, 1, 1, 1]], (init 0 0 0.0107 None 1)\<lparr>gainSettings := [[1, 1, 1, 1]]\<rparr>)"
    using getRelativeGain_uniform [of "init 0 0 0.0107 None 1"] by (simp add: init_def)
  from a b show ?thesis by blast
qed

lemma setAntenna_keeps_raw [simp]:
  "phaseSettingsRaw (setAntenna s grid invertPattern spacing) = phaseSettingsRaw s"
  by (simp add: setAntenna_def)

lemma setAntenna_clears:
  "phaseSettings (setAntenna s grid invertPattern spacing) = []"
  "gainSettings (setAntenna s grid invertPattern spacing) = []"
  by (simp_all add: setAntenna_def)

lemma getRawPhaseSettings_after_setAntenna:
  "phaseSettingsRaw s \<noteq> [] \<Longrightarrow>
     getRawPhaseSettings (setAntenna s grid invertPattern spacing)
       = (Inr (phaseSettingsRaw s), setAntenna s grid invertPattern spacing)"
  by (simp add: getRawPhaseSettings_def)

lemma getRawPhaseSettings_fresh:
  "phaseSettingsRaw s = [] \<Longrightarrow> getPhaseSettings s = (Inr r, s') \<Longrightarrow>
     getRawPhaseSettings s = (Inr (phaseSettingsRaw s'), s')"
  by (simp add: getRawPhaseSettings_def)

lemma getPhaseSettings_default_grid:
  assumes "phaseSettings s = []"
    and "antennaGrid s = [[NE, NW, SE, SW]]" and "antennaInvert s = [[True, False, True, False]]"
    and "phaseGradients s = Inr (ew, ns)" and "phaseCal s = None"
  shows "\<exists>r. getPhaseSettings s =
           (Inr r, s\<lparr>phaseSettingsRaw := [[0, ew, 2 * ew, 3 * ew]], phaseSettings := r\<rparr>)"
proof -
  have c3: "list_all2 (\<lambda>g m. length g = length m \<and> length g = length (antennaGrid s ! 0))
              (antennaGrid s) (antennaInvert s)" using assms(2,3) by simp
  have c4: "{NE, SE, SW, NW} \<subseteq> set (concat (antennaGrid s))" using assms(2) by simp
  have c5: "phaseCal s = None \<or> phaseCal s = Some [] \<or>
      (\<exists>d. phaseCal s = Some d \<and> (\<forall>q\<in>{NE, SE, SW, NW}. \<exists>t. map_of d q = Some t \<and> t \<noteq> []))"
    using assms(5) by simp
  from getPhaseSettings_valid [OF assms(1,4) c3 c4 c5]
  obtain r where r0: "getPhaseSettings s =
           (Inr r, s\<lparr>phaseSettingsRaw :=
                       map (\<lambda>i. map (\<lambda>j. real i * ns + real j * ew) [0..<length (antennaGrid s ! 0)])
                         [0..<length (antennaGrid s)],
                     phaseSettings := r\<rparr>)" by blast
  have f: "map (\<lambda>i. map (\<lambda>j. real i * ns + real j * ew) [0..<length (antennaGrid s ! 0)])
             [0..<length (antennaGrid s)] = [[0, ew, 2 * ew, 3 * ew]]"
    using assms(2) by (simp add: upt_rec_numeral)
  show ?thesis using r0 unfolding f by blast
qed

text \<open>
  Claim C3 at a failing input. After \<open>getPhaseSettings\<close> on
  \<open>BeamDefinition(30, 90, 0.0108)\<close> (spacing 0.0054), \<open>setAntenna\<close> with the same grid and
  mask and the spacing doubled to 0.0108 leaves \<open>phaseSettingsRaw\<close> in place, and
  \<open>getRawPhaseSettings\<close> returns the field of the old spacing,
  \<open>[[0, -\<pi>/2, -\<pi>, -3\<pi>/2]]\<close>; computed from the new geometry the field is
  \<open>[[0, -\<pi>, -2\<pi>, -3\<pi>]]\<close>. The caches of \<open>getPhaseSettings\<close> and \<open>getRelativeGain\<close> are
  cleared.
\<close>

theorem setAntenna_stale_raw_phase:
  "fst (getRawPhaseSettings
          (setAntenna (snd (getPhaseSettings (init 30 90 0.0108 None 1)))
             [[NE, NW, SE, SW]] [[True, False, True, False]] 0.0108))
     = Inr [[0, - (pi / 2), - pi, - (3 * pi / 2)]]
   \<and> fst (getRawPhaseSettings
          (setAntenna (init 30 90 0.0108 None 1)
             [[NE, NW, SE, SW]] [[True, False, True, False]] 0.0108))
     = Inr [[0, - pi, - (2 * pi), - (3 * pi)]]
   \<and> phaseSettings (setAntenna (snd (getPhaseSettings (init 30 90 0.0108 None 1)))
             [[NE, NW, SE, SW]] [[True, False, True, False]] 0.0108) = []
   \<and> gainSettings (setAntenna (snd (getPhaseSettings (init 30 90 0.0108 None 1)))
             [[NE, NW, SE, SW]] [[True, False, True, False]] 0.0108) = []"
proof -
  let ?s0 = "init 30 90 0.0108 None 1"
  let ?g = "[[NE, NW, SE, SW]]"
  let ?m = "[[True, False, True, False]]"
  have "phaseGradients ?s0 = Inr (- (2 * pi / waveLength ?s0) * antennaSpacing ?s0 * (1 / 2), 0)"
    by (rule phaseGradients_30_90) (simp_all add: init_def)
  then have g0: "phaseGradients ?s0 = Inr (- (pi / 2), 0)" by (simp add: init_def)
  have "\<exists>r. getPhaseSettings ?s0 =
           (Inr r, ?s0\<lparr>phaseSettingsRaw := [[0, - (pi / 2), 2 * - (pi / 2), 3 * - (pi / 2)]],
                       phaseSettings := r\<rparr>)"
    by (rule getPhaseSettings_default_grid [OF _ _ _ g0]) (simp_all add: init_def)
  then have raw1: "phaseSettingsRaw (snd (getPhaseSettings ?s0))
                   = [[0, - (pi / 2), - pi, - (3 * pi / 2)]]" by auto
  have a: "fst (getRawPhaseSettings (setAntenna (snd (getPhaseSettings ?s0)) ?g ?m 0.0108))
           = Inr [[0, - (pi / 2), - pi, - (3 * pi / 2)]]"
    using getRawPhaseSettings_after_setAntenna [of "snd (getPhaseSettings ?s0)" ?g ?m "0.0108"]
    unfolding raw1 by simp
  let ?s1 = "setAntenna ?s0 ?g ?m 0.0108"
  have "phaseGradients ?s1 = Inr (- (2 * pi / waveLength ?s1) * antennaSpacing ?s1 * (1 / 2), 0)"
    by (rule phaseGradients_30_90) (simp_all add: init_def setAntenna_def)
  then have g1: "phaseGradients ?s1 = Inr (- pi, 0)" by (simp add: init_def setAntenna_def)
  have "\<exists>r. getPhaseSettings ?s1 =
           (Inr r, ?s1\<lparr>phaseSettingsRaw := [[0, - pi, 2 * - pi, 3 * - pi]], phaseSettings := r\<rparr>)"
    by (rule getPhaseSettings_default_grid [OF _ _ _ g1]) (simp_all add: init_def setAntenna_def)
  then obtain r where r: "getPhaseSettings ?s1 =
           (Inr r, ?s1\<lparr>phaseSettingsRaw := [[0, - pi, 2 * - pi, 3 * - pi]], phaseSettings := r\<rparr>)"
    by blast
  have "phaseSettingsRaw ?s1 = []" by (simp add: init_def)
  from getRawPhaseSettings_fresh [OF this r]
  have b: "fst (getRawPhaseSettings ?s1) = Inr [[0, - pi, - (2 * pi), - (3 * pi)]]"
    by simp
  show ?thesis by (intro conjI a b setAntenna_clears)
qed

section \<open>Normalization of phi\<close>

lemma regulatePhi_range:
  "\<exists>v'. regulatePhi v = Inr v' \<and> 0 \<le> v' \<and> v' < 360
        \<and> (\<exists>k::int. v' = v - 360 * of_int k)"
proof (cases "v < 0 \<or> 360 \<le> v")
  case True
  have "0 \<le> v - 360 * of_int \<lfloor>v / 360\<rfloor>" "v - 360 * of_int \<lfloor>v / 360\<rfloor> < 360"
    using py_mod_range [of 360 v] by simp_all
  then show ?thesis using True by (auto simp: regulatePhi_def py_mod_def)
next
  case False
  then have "regulatePhi v = Inr v" "0 \<le> v" "v < 360" "v = v - 360 * of_int (0::int)"
    by (simp_all add: regulatePhi_def)
  then show ?thesis by blast
qed

text \<open>
  Claim C8, as amended. \<open>BeamDefinition.__init__\<close> stores \<open>radians(phi)\<close> and
  \<open>radians(theta)\<close> as they are given, without normalization. The normalization of phi
  into \<open>[0, 360)\<close> is done by the caller \<open>sketchAfPattern\<close> of BeamDemo.py, which replaces a
  phi-box value outside \<open>[0, 360)\<close> by \<open>value % 360\<close> (the same angle up to a multiple of
  360) and leaves a value inside the range unchanged, before it builds the
  \<open>BeamDefinition\<close>.
\<close>

theorem phi_regulated_by_caller:
  "phi (init th ph wl cal bs) = radians ph
   \<and> theta (init th ph wl cal bs) = radians th
   \<and> (\<exists>v'. regulatePhi v = Inr v' \<and> 0 \<le> v' \<and> v' < 360
          \<and> (\<exists>k::int. v' = v - 360 * of_int k))
   \<and> (0 \<le> v \<and> v < 360 \<longrightarrow> regulatePhi v = Inr v)"
proof -
  have "0 \<le> v \<and> v < 360 \<longrightarrow> regulatePhi v = Inr v" by (simp add: regulatePhi_def)
  then show ?thesis using regulatePhi_range [of v] by (simp add: init_def)
qed

theorem phi_regulated_by_caller_witness:
  "(0::real) \<le> 45 \<and> (45::real) < 360 \<and> regulatePhi 45 = Inr 45
   \<and> phi (init (- 30) (- 90) 0.0107 None 1) = radians (- 90)
   \<and> (\<exists>v'. regulatePhi (- 90) = Inr v' \<and> 0 \<le> v' \<and> v' < 360)"
proof -
  have h: "(0::real) \<le> 45 \<and> (45::real) < 360" by simp
  note t = phi_regulated_by_caller [of "- 30" "- 90" "0.0107" None 1 45]
  note u = phi_regulated_by_caller [of "- 30" "- 90" "0.0107" None 1 "- 90"]
  have a: "regulatePhi 45 = Inr 45" using t h by blast
  have b: "phi (init (- 30) (- 90) 0.0107 None 1) = radians (- 90)" using t by blast
  have c: "\<exists>v'. regulatePhi (- 90) = Inr v' \<and> 0 \<le> v' \<and> v' < 360" using u by blast
  from h a b c show ?thesis by blast
qed

text \<open>
  The claim as stated fails: a phi of -90 degrees given to \<open>BeamDefinition\<close> is used as
  \<open>-\<pi>/2\<close> radians, outside \<open>[0, 2\<pi>)\<close>, and \<open>getPhaseSettings\<close> computes with it.
\<close>

theorem phi_not_normalized_counterexample:
  "phi (init (- 30) (- 90) 0.0107 None 1) = - (pi / 2)
   \<and> \<not> 0 \<le> phi (init (- 30) (- 90) 0.0107 None 1)
   \<and> (\<exists>ew ns. phaseGradients (init (- 30) (- 90) 0.0107 None 1) = Inr (ew, ns))
   \<and> (\<exists>r s'. getPhaseSettings (init (- 30) (- 90) 0.0107 None 1) = (Inr r, s'))"
proof -
  let ?s = "init (- 30) (- 90) 0.0107 None 1"
  have p: "phi ?s = - (pi / 2)" by (simp add: init_def radians_def)
  have n: "\<not> 0 \<le> phi ?s" unfolding p by (simp add: not_le)
  have t: "theta ?s = - (pi / 6)" by (simp add: init_def radians_def)
  have c: "cos (theta ?s) \<noteq> 0" unfolding t by (simp add: cos_30)
  have w: "waveLength ?s \<noteq> 0" by (simp add: init_def)
  from phaseGradients_ok [OF w c] obtain ew ns where g: "phaseGradients ?s = Inr (ew, ns)"
    by blast
  have "\<exists>r. getPhaseSettings ?s =
           (Inr r, ?s\<lparr>phaseSettingsRaw := [[0, ew, 2 * ew, 3 * ew]], phaseSettings := r\<rparr>)"
    by (rule getPhaseSettings_default_grid [OF _ _ _ g]) (simp_all add: init_def)
  then have r: "\<exists>r s'. getPhaseSettings ?s = (Inr r, s')" by blast
  from p n g r show ?thesis by blast
qed

section \<open>The broadside scenario on the default grid\<close>




section \<open>The divisor of the normalization\<close>

lemma Max_insert_max:
  fixes x y :: real
  assumes "finite A"
  shows "Max (insert (max x y) A) = Max (insert x (insert y A))"
proof (cases "A = {}")
  case True
  then show ?thesis by simp
next
  case False
  then show ?thesis using assms by (simp add: max.assoc)
qed

lemma phiLoop_divisor:
  assumes "phiLoop absAf p_max p_d t p s points af_max = Some y"
  shows "\<forall>points' af_max' s'. y = (Inr (points', af_max'), s') \<longrightarrow>
           (\<exists>new. points' = points @ new
              \<and> cmod af_max' = Max (insert (cmod af_max) ((\<lambda>q. cmod (snd (snd q))) ` set new)))"
proof -
  let ?P = "\<lambda>(absAf :: bool) (p_max :: real) (p_d :: real) (t :: real) (p :: real)
              (s :: BeamDefinition) (points :: point list) (af_max :: complex)
              (y :: (py_error + point list \<times> complex) \<times> BeamDefinition).
      \<forall>points' af_max' s'. y = (Inr (points', af_max'), s') \<longrightarrow>
           (\<exists>new. points' = points @ new
              \<and> cmod af_max' = Max (insert (cmod af_max) ((\<lambda>q. cmod (snd (snd q))) ` set new)))"
  have "?P absAf p_max p_d t p s points af_max y"
  proof (rule phiLoop.raw_induct [where P = ?P, OF _ assms])
    fix f absAf p_max p_d t p s points af_max y
    assume ih: "\<And>a b c d e g h i z. f a b c d e g h i = Some z \<Longrightarrow> ?P a b c d e g h i z"
      and unf: "(if p < p_max
          then case afSample s t p of (Inl e, s') \<Rightarrow> Some (Inl e, s')
               | (Inr a0, s') \<Rightarrow>
                   let a = if absAf then complex_of_real (cmod a0) else a0
                   in f absAf p_max p_d t (p + p_d) s' (points @ [(t, p, a)])
                       (if cmod af_max < cmod a then a else af_max)
          else Some (Inr (points, af_max), s)) = Some y"
    show "?P absAf p_max p_d t p s points af_max y"
    proof (intro allI impI)
      fix points' af_max' s'
      assume y: "y = (Inr (points', af_max'), s')"
      show "\<exists>new. points' = points @ new
              \<and> cmod af_max' = Max (insert (cmod af_max) ((\<lambda>q. cmod (snd (snd q))) ` set new))"
      proof (cases "p < p_max")
        case False
        with unf y have "points' = points" "af_max' = af_max" by simp_all
        then show ?thesis by simp
      next
        case True
        obtain res s1 where sm: "afSample s t p = (res, s1)" by (cases "afSample s t p")
        show ?thesis
        proof (cases res)
          case (Inl e)
          with unf True sm y show ?thesis by simp
        next
          case (Inr a0)
          let ?a = "if absAf then complex_of_real (cmod a0) else a0"
          let ?m = "if cmod af_max < cmod ?a then ?a else af_max"
          from unf True sm Inr have call:
            "f absAf p_max p_d t (p + p_d) s1 (points @ [(t, p, ?a)]) ?m = Some y"
            by (simp add: Let_def)
          from ih [OF call, rule_format, OF y]
          obtain new where new: "points' = (points @ [(t, p, ?a)]) @ new"
            "cmod af_max' = Max (insert (cmod ?m) ((\<lambda>q. cmod (snd (snd q))) ` set new))" by blast
          have m: "cmod ?m = max (cmod af_max) (cmod ?a)" by (simp add: max_def)
          have "cmod af_max' = Max (insert (cmod af_max)
                  ((\<lambda>q. cmod (snd (snd q))) ` set ((t, p, ?a) # new)))"
            unfolding new(2) m using Max_insert_max [of "(\<lambda>q. cmod (snd (snd q))) ` set new"]
            by simp
          with new(1) show ?thesis
            by (intro exI [of _ "(t, p, ?a) # new"]) simp
        qed
      qed
    qed
  qed
  then show ?thesis .
qed

lemma thetaLoop_divisor:
  assumes "thetaLoop absAf t_max p_max p_d t_d t s points af_max = Some y"
  shows "\<forall>points' af_max' s'. y = (Inr (points', af_max'), s') \<longrightarrow>
           (\<exists>new. points' = points @ new
              \<and> cmod af_max' = Max (insert (cmod af_max) ((\<lambda>q. cmod (snd (snd q))) ` set new)))"
proof -
  let ?P = "\<lambda>(absAf :: bool) (t_max :: real) (p_max :: real) (p_d :: real) (t_d :: real) (t :: real)
              (s :: BeamDefinition) (points :: point list) (af_max :: complex)
              (y :: (py_error + point list \<times> complex) \<times> BeamDefinition).
      \<forall>points' af_max' s'. y = (Inr (points', af_max'), s') \<longrightarrow>
           (\<exists>new. points' = points @ new
              \<and> cmod af_max' = Max (insert (cmod af_max) ((\<lambda>q. cmod (snd (snd q))) ` set new)))"
  have "?P absAf t_max p_max p_d t_d t s points af_max y"
  proof (rule thetaLoop.raw_induct [where P = ?P, OF _ assms])
    fix f absAf t_max p_max p_d t_d t s points af_max y
    assume ih: "\<And>a b c d e g h i j z. f a b c d e g h i j = Some z \<Longrightarrow> ?P a b c d e g h i j z"
      and unf: "(if t < t_max
          then Option.bind (phiLoop absAf p_max p_d t 0 s points af_max)
                (\<lambda>r. case r of (Inl e, s') \<Rightarrow> Some (Inl e, s')
                     | (Inr (points', af_max'), s') \<Rightarrow>
                         f absAf t_max p_max p_d t_d (t + t_d) s' points' af_max')
          else Some (Inr (points, af_max), s)) = Some y"
    show "?P absAf t_max p_max p_d t_d t s points af_max y"
    proof (intro allI impI)
      fix points' af_max' s'
      assume y: "y = (Inr (points', af_max'), s')"
      show "\<exists>new. points' = points @ new
              \<and> cmod af_max' = Max (insert (cmod af_max) ((\<lambda>q. cmod (snd (snd q))) ` set new))"
      proof (cases "t < t_max")
        case False
        with unf y have "points' = points" "af_max' = af_max" by simp_all
        then show ?thesis by simp
      next
        case True
        with unf obtain r where r: "phiLoop absAf p_max p_d t 0 s points af_max = Some r"
          and rest: "(case r of (Inl e, s') \<Rightarrow> Some (Inl e, s')
                      | (Inr (points', af_max'), s') \<Rightarrow>
                          f absAf t_max p_max p_d t_d (t + t_d) s' points' af_max') = Some y"
          by (auto simp: bind_eq_Some_conv)
        obtain res s1 where rs: "r = (res, s1)" by (cases r)
        show ?thesis
        proof (cases res)
          case (Inl e)
          with rest rs y show ?thesis by simp
        next
          case (Inr pm)
          obtain points1 af_max1 where pm: "pm = (points1, af_max1)" by (cases pm)
          from rest rs Inr pm have call:
            "f absAf t_max p_max p_d t_d (t + t_d) s1 points1 af_max1 = Some y" by simp
          have r': "r = (Inr (points1, af_max1), s1)" using rs Inr pm by simp
          from phiLoop_divisor [OF r, rule_format, OF r']
          obtain new1 where n1: "points1 = points @ new1"
            "cmod af_max1 = Max (insert (cmod af_max) ((\<lambda>q. cmod (snd (snd q))) ` set new1))"
            by blast
          from ih [OF call, rule_format, OF y]
          obtain new2 where n2: "points' = points1 @ new2"
            "cmod af_max' = Max (insert (cmod af_max1) ((\<lambda>q. cmod (snd (snd q))) ` set new2))"
            by blast
          let ?A = "(\<lambda>q. cmod (snd (snd q))) ` set new1"
          let ?B = "(\<lambda>q. cmod (snd (snd q))) ` set new2"
          have "Max (insert (Max (insert (cmod af_max) ?A)) ?B)
                = Max (insert (cmod af_max) (?A \<union> ?B))"
          proof (cases "?B = {}")
            case True
            then show ?thesis by simp
          next
            case False
            have "Max (insert (Max (insert (cmod af_max) ?A)) ?B)
                  = max (Max (insert (cmod af_max) ?A)) (Max ?B)"
              using False by simp
            also have "\<dots> = Max (insert (cmod af_max) ?A \<union> ?B)"
              using False by (subst Max_Un) simp_all
            finally show ?thesis by simp
          qed
          then have "cmod af_max' = Max (insert (cmod af_max)
                  ((\<lambda>q. cmod (snd (snd q))) ` set (new1 @ new2)))"
            unfolding n2(2) n1(2) by (simp add: image_Un)
          with n1(1) n2(1) show ?thesis
            by (intro exI [of _ "new1 @ new2"]) simp
        qed
      qed
    qed
  qed
  then show ?thesis .
qed

text \<open>
  What the normalization divides by, for every sweep that returns: the larger of 1 and the
  greatest sampled magnitude. The maximum of the returned list is therefore 1 exactly when
  some sample has magnitude at least 1.
\<close>

lemma generateAllAF_divisor:
  assumes "generateAllAF s n_theta n_phi False absAf backLobes = Some (Inr points, s')"
  shows "generateAllAF s n_theta n_phi True absAf backLobes =
           Some (Inr (map (\<lambda>(t, p, a).
                   (t, p, a / of_real (Max (insert 1 ((\<lambda>q. cmod (snd (snd q))) ` set points)))))
                 points), s')"
proof -
  from generateAllAF_loop [OF assms]
  obtain pts af_max where loop:
    "thetaLoop absAf (if backLobes then 180 else 90) 360 (360 / n_phi)
               ((if backLobes then 180 else 90) / n_theta) 0 s [] (- 1)
             = Some (Inr (pts, af_max), s')"
    and nz: "n_phi \<noteq> 0" "n_theta \<noteq> 0" and "points = pts" by auto
  then have loop': "thetaLoop absAf (if backLobes then 180 else 90) 360 (360 / n_phi)
               ((if backLobes then 180 else 90) / n_theta) 0 s [] (- 1)
             = Some (Inr (points, af_max), s')" by simp
  from thetaLoop_divisor [OF loop', rule_format, OF refl]
  have m: "cmod af_max = Max (insert 1 ((\<lambda>q. cmod (snd (snd q))) ` set points))" by simp
  have "1 \<le> Max (insert 1 ((\<lambda>q. cmod (snd (snd q))) ` set points))" by simp
  then have "cmod af_max \<noteq> 0" unfolding m by linarith
  from normalizePoints_nonzero [OF this, of points] generateAllAF_from_loop [OF loop' nz]
  show ?thesis unfolding m by simp
qed

end
